theory Spec2Isabelle
  imports Main "HOL-Library.Multiset"
begin

section \<open>Wa-Tor: a predator-prey simulation on a toroidal grid\<close>

text \<open>
  The development embeds \<^verbatim>\<open>wa-tor.py\<close>: the two agent classes \<^verbatim>\<open>Fish\<close> and
  \<^verbatim>\<open>Shark\<close>, the model class \<^verbatim>\<open>WaTorModel\<close> and the driver loop. Python objects
  live in an explicit store indexed by their \<^verbatim>\<open>unique_id\<close>; the grid cells and the
  scheduler hold these ids, as the Python structures hold references. The random
  generator \<^verbatim>\<open>self.random\<close> is a stream of raw draws together with the number of
  draws already consumed.
\<close>

subsection \<open>Data\<close>

datatype CellType = EMPTY | FISH | SHARK

fun CellType_value :: "CellType \<Rightarrow> nat" where
  "CellType_value EMPTY = 0"
| "CellType_value FISH = 1"
| "CellType_value SHARK = 2"

datatype agent_class = Fish | Shark

type_synonym coord = "int \<times> int"

record agent =
  cls :: agent_class
  energy :: int
  fertility_counter :: int
  pos :: "coord option"

datatype error = ValueError | IndexError | InvalidAgentReference

record model =
  num_agents :: int
  width :: int
  height :: int
  grid :: "coord \<Rightarrow> nat list"
  schedule :: "nat list"
  agents :: "nat \<Rightarrow> agent"
  datacollector :: "nat list list list"
  fish_initial_energy :: int
  shark_initial_energy :: int
  fish_fertility_threshold :: int
  shark_fertility_threshold :: int
  shark_energy_from_fish :: int
  current_id :: nat
  rng :: "nat \<Rightarrow> nat"
  rng_pos :: nat

text \<open>Sequencing of fallible steps: the first exception ends the computation.\<close>

definition and_then :: "error + 'a \<Rightarrow> ('a \<Rightarrow> error + 'b) \<Rightarrow> error + 'b" where
  "and_then r f = (case r of Inl e \<Rightarrow> Inl e | Inr x \<Rightarrow> f x)"

subsection \<open>The random source\<close>

text \<open>
  Python's \<^verbatim>\<open>random.Random\<close>: every request takes the next raw draw of the stream
  and reduces it to the requested range. \<^verbatim>\<open>randrange(n)\<close> raises \<^verbatim>\<open>ValueError\<close> on an
  empty range, \<^verbatim>\<open>choice\<close> raises \<^verbatim>\<open>IndexError\<close> on an empty sequence, and
  \<^verbatim>\<open>shuffle\<close> is the Fisher-Yates loop
  \<^verbatim>\<open>for i in reversed(range(1, len(x))): j = randbelow(i + 1); x[i], x[j] = x[j], x[i]\<close>.
\<close>

definition randbelow :: "nat \<Rightarrow> model \<Rightarrow> nat \<times> model" where
  "randbelow n m = (rng m (rng_pos m) mod n, m\<lparr>rng_pos := Suc (rng_pos m)\<rparr>)"

definition randrange :: "int \<Rightarrow> model \<Rightarrow> error + (int \<times> model)" where
  "randrange n m =
     (if n \<le> 0 then Inl ValueError
      else (let (k, m1) = randbelow (nat n) m in Inr (int k, m1)))"

definition choice :: "'a list \<Rightarrow> model \<Rightarrow> error + ('a \<times> model)" where
  "choice xs m =
     (if xs = [] then Inl IndexError
      else (let (k, m1) = randbelow (length xs) m in Inr (xs ! k, m1)))"

fun shuffle_from :: "nat \<Rightarrow> nat list \<Rightarrow> model \<Rightarrow> nat list \<times> model" where
  "shuffle_from 0 xs m = (xs, m)"
| "shuffle_from (Suc i) xs m =
     (let (j, m1) = randbelow (Suc (Suc i)) m
      in shuffle_from i (xs[Suc i := xs ! j, j := xs ! Suc i]) m1)"

definition shuffle :: "nat list \<Rightarrow> model \<Rightarrow> nat list \<times> model" where
  "shuffle xs m = shuffle_from (length xs - 1) xs m"

subsection \<open>The World: the toroidal multi-grid\<close>

text \<open>
  Modelled from the spec: the grid class \<^verbatim>\<open>MultiGrid\<close> is imported from the mesa
  library and is not part of the source file. Section 4.1 of the specification gives
  its operations: \<^verbatim>\<open>neighbors\<close> returns the 4 orthogonally adjacent cells or the 8
  adjacent cells, each coordinate wrapped toroidally, always exactly 4 or 8 of them;
  \<^verbatim>\<open>is_empty\<close> holds iff the occupant sequence is empty; \<^verbatim>\<open>place\<close> appends the agent
  to the cell's sequence and never checks emptiness; \<^verbatim>\<open>remove\<close> takes the agent out
  of its current cell's sequence; \<^verbatim>\<open>move\<close> is \<^verbatim>\<open>remove\<close> followed by \<^verbatim>\<open>place\<close>.
  Section 7 makes the use of an agent that has no cell an invalid agent reference, a
  fatal failure.
\<close>

definition get_neighborhood :: "model \<Rightarrow> coord \<Rightarrow> bool \<Rightarrow> coord list" where
  "get_neighborhood m p moore =
     (let (x, y) = p
      in map (\<lambda>(dx, dy). ((x + dx) mod width m, (y + dy) mod height m))
           (if moore
            then [(-1, -1), (-1, 0), (-1, 1), (0, -1), (0, 1), (1, -1), (1, 0), (1, 1)]
            else [(-1, 0), (0, -1), (0, 1), (1, 0)]))"

definition is_cell_empty :: "model \<Rightarrow> coord \<Rightarrow> bool" where
  "is_cell_empty m p = (grid m p = [])"

definition get_cell_list_contents :: "model \<Rightarrow> coord \<Rightarrow> nat list" where
  "get_cell_list_contents m p = grid m p"

definition place_agent :: "nat \<Rightarrow> coord \<Rightarrow> model \<Rightarrow> model" where
  "place_agent a p m =
     m\<lparr>grid := (grid m)(p := grid m p @ [a]),
       agents := (agents m)(a := (agents m a)\<lparr>pos := Some p\<rparr>)\<rparr>"

definition remove_agent :: "nat \<Rightarrow> model \<Rightarrow> error + model" where
  "remove_agent a m =
     (case pos (agents m a) of
        None \<Rightarrow> Inl InvalidAgentReference
      | Some p \<Rightarrow>
          if a \<in> set (grid m p)
          then Inr (m\<lparr>grid := (grid m)(p := remove1 a (grid m p)),
                      agents := (agents m)(a := (agents m a)\<lparr>pos := None\<rparr>)\<rparr>)
          else Inl InvalidAgentReference)"

definition move_agent :: "nat \<Rightarrow> coord \<Rightarrow> model \<Rightarrow> error + model" where
  "move_agent a p m = and_then (remove_agent a m) (\<lambda>m1. Inr (place_agent a p m1))"

subsection \<open>The Scheduler roster\<close>

text \<open>
  Modelled from the spec: the scheduler class \<^verbatim>\<open>RandomActivation\<close> is imported from
  the mesa library and is not part of the source file. Section 4.3 of the
  specification: the roster holds the live agents (here the list of their ids, in
  insertion order, each id at most once); a tick takes a snapshot of the roster,
  shuffles it, and activates each agent of the snapshot in that order, skipping an
  agent that is no longer in the roster when its turn arrives; agents added during the
  tick enter the roster but not the snapshot. Adding an id twice and removing an
  absent id are invalid agent references.
\<close>

definition schedule_add :: "nat \<Rightarrow> model \<Rightarrow> error + model" where
  "schedule_add a m =
     (if a \<in> set (schedule m) then Inl InvalidAgentReference
      else Inr (m\<lparr>schedule := schedule m @ [a]\<rparr>))"

definition schedule_remove :: "nat \<Rightarrow> model \<Rightarrow> error + model" where
  "schedule_remove a m =
     (if a \<in> set (schedule m) then Inr (m\<lparr>schedule := removeAll a (schedule m)\<rparr>)
      else Inl InvalidAgentReference)"

text \<open>
  \<^verbatim>\<open>Model.next_id\<close> of the library: \<^verbatim>\<open>self.current_id += 1; return self.current_id\<close>.
  The constructor of either agent class stores the energy and a fertility counter 0;
  a fresh agent has no position.
\<close>

definition next_id :: "model \<Rightarrow> nat \<times> model" where
  "next_id m = (Suc (current_id m), m\<lparr>current_id := Suc (current_id m)\<rparr>)"

definition new_agent :: "agent_class \<Rightarrow> nat \<Rightarrow> int \<Rightarrow> model \<Rightarrow> model" where
  "new_agent c a e m =
     m\<lparr>agents := (agents m)(a := \<lparr>cls = c, energy = e, fertility_counter = 0, pos = None\<rparr>)\<rparr>"

subsection \<open>Fish\<close>

definition add_energy :: "nat \<Rightarrow> int \<Rightarrow> model \<Rightarrow> model" where
  "add_energy a d m = m\<lparr>agents := (agents m)(a := (agents m a)\<lparr>energy := energy (agents m a) + d\<rparr>)\<rparr>"

definition set_fertility :: "nat \<Rightarrow> int \<Rightarrow> model \<Rightarrow> model" where
  "set_fertility a v m = m\<lparr>agents := (agents m)(a := (agents m a)\<lparr>fertility_counter := v\<rparr>)\<rparr>"

definition Fish_move :: "nat \<Rightarrow> model \<Rightarrow> error + model" where
  "Fish_move a m =
     (case pos (agents m a) of
        None \<Rightarrow> Inl InvalidAgentReference
      | Some p \<Rightarrow>
          (let possible_steps = get_neighborhood m p False;
               empty_steps = filter (is_cell_empty m) possible_steps
           in if empty_steps \<noteq> []
              then and_then (choice empty_steps m)
                     (\<lambda>(new_position, m1). move_agent a new_position m1)
              else Inr m))"

definition Fish_reproduce :: "nat \<Rightarrow> model \<Rightarrow> error + model" where
  "Fish_reproduce a m =
     (let m1 = set_fertility a (fertility_counter (agents m a) + 1) m
      in if fertility_counter (agents m1 a) \<ge> fish_fertility_threshold m1
         then (let (oid, m2) = next_id m1;
                   m3 = new_agent Fish oid (fish_initial_energy m2) m2
               in case pos (agents m3 a) of
                    None \<Rightarrow> Inl InvalidAgentReference
                  | Some p \<Rightarrow>
                      and_then (schedule_add oid (place_agent oid p m3))
                        (\<lambda>m4. Inr (set_fertility a 0 m4)))
         else Inr m1)"

definition die_if_exhausted :: "nat \<Rightarrow> model \<Rightarrow> error + model" where
  "die_if_exhausted a m =
     (if energy (agents m a) \<le> 0
      then and_then (remove_agent a m) (schedule_remove a)
      else Inr m)"

definition Fish_step :: "nat \<Rightarrow> model \<Rightarrow> error + model" where
  "Fish_step a m =
     and_then (Fish_move a m)
       (\<lambda>m1. and_then (Fish_reproduce a (add_energy a (- 1) m1))
          (\<lambda>m2. die_if_exhausted a m2))"

subsection \<open>Shark\<close>

definition first_is_fish :: "model \<Rightarrow> coord \<Rightarrow> bool" where
  "first_is_fish m s =
     (case get_cell_list_contents m s of [] \<Rightarrow> False | f # _ \<Rightarrow> cls (agents m f) = Fish)"

definition Shark_move_and_eat :: "nat \<Rightarrow> model \<Rightarrow> error + model" where
  "Shark_move_and_eat a m =
     (case pos (agents m a) of
        None \<Rightarrow> Inl InvalidAgentReference
      | Some p \<Rightarrow>
          (let possible_steps = get_neighborhood m p True;
               fish_positions = filter (first_is_fish m) possible_steps
           in if fish_positions \<noteq> []
              then and_then (choice fish_positions m)
                     (\<lambda>(new_position, m1).
                        case get_cell_list_contents m1 new_position of
                          [] \<Rightarrow> Inl IndexError
                        | fish # _ \<Rightarrow>
                            and_then (remove_agent fish m1)
                              (\<lambda>m2. and_then (schedule_remove fish m2)
                                 (\<lambda>m3. and_then (move_agent a new_position m3)
                                    (\<lambda>m4. Inr (add_energy a (shark_energy_from_fish m4) m4)))))
              else (let empty_steps = filter (is_cell_empty m) possible_steps
                    in if empty_steps \<noteq> []
                       then and_then (choice empty_steps m)
                              (\<lambda>(new_position, m1). move_agent a new_position m1)
                       else Inr m)))"

definition Shark_reproduce :: "nat \<Rightarrow> model \<Rightarrow> error + model" where
  "Shark_reproduce a m =
     (let m1 = set_fertility a (fertility_counter (agents m a) + 1) m
      in if fertility_counter (agents m1 a) \<ge> shark_fertility_threshold m1
         then (let (oid, m2) = next_id m1;
                   m3 = new_agent Shark oid (shark_initial_energy m2) m2
               in case pos (agents m3 a) of
                    None \<Rightarrow> Inl InvalidAgentReference
                  | Some p \<Rightarrow>
                      and_then (schedule_add oid (place_agent oid p m3))
                        (\<lambda>m4. Inr (set_fertility a 0 m4)))
         else Inr m1)"

definition Shark_step :: "nat \<Rightarrow> model \<Rightarrow> error + model" where
  "Shark_step a m =
     and_then (Shark_move_and_eat a m)
       (\<lambda>m1. and_then (Shark_reproduce a m1)
          (\<lambda>m2. die_if_exhausted a (add_energy a (- 1) m2)))"

text \<open>Method dispatch on the class of the object.\<close>

definition agent_step :: "nat \<Rightarrow> model \<Rightarrow> error + model" where
  "agent_step a m =
     (case cls (agents m a) of Fish \<Rightarrow> Fish_step a m | Shark \<Rightarrow> Shark_step a m)"

subsection \<open>WaTorModel\<close>

definition classify :: "model \<Rightarrow> nat list \<Rightarrow> nat" where
  "classify m content =
     (case content of
        [] \<Rightarrow> CellType_value EMPTY
      | a # _ \<Rightarrow>
          if cls (agents m a) = Shark then CellType_value SHARK
          else if cls (agents m a) = Fish then CellType_value FISH
          else CellType_value EMPTY)"

definition get_grid :: "model \<Rightarrow> nat list list" where
  "get_grid m =
     map (\<lambda>x. map (\<lambda>y. classify m (grid m (int x, int y))) [0..<nat (height m)])
       [0..<nat (width m)]"

partial_function (option) find_empty_loop ::
    "model \<Rightarrow> int \<Rightarrow> int \<Rightarrow> (error + (coord \<times> model)) option" where
  "find_empty_loop m x y =
     (if \<not> is_cell_empty m (x, y)
      then (case randrange (width m) m of
              Inl e \<Rightarrow> Some (Inl e)
            | Inr (x', m1) \<Rightarrow>
                (case randrange (height m1) m1 of
                   Inl e \<Rightarrow> Some (Inl e)
                 | Inr (y', m2) \<Rightarrow> find_empty_loop m2 x' y'))
      else Some (Inr ((x, y), m)))"

definition find_empty_cell :: "model \<Rightarrow> (error + (coord \<times> model)) option" where
  "find_empty_cell m =
     (case randrange (width m) m of
        Inl e \<Rightarrow> Some (Inl e)
      | Inr (x, m1) \<Rightarrow>
          (case randrange (height m1) m1 of
             Inl e \<Rightarrow> Some (Inl e)
           | Inr (y, m2) \<Rightarrow> find_empty_loop m2 x y))"

text \<open>
  The two seeding loops of the constructor have the same body up to the class and the
  initial energy of the agent they create.
\<close>

fun seed_agents :: "agent_class \<Rightarrow> int \<Rightarrow> nat \<Rightarrow> model \<Rightarrow> (error + model) option" where
  "seed_agents c e 0 m = Some (Inr m)"
| "seed_agents c e (Suc n) m =
     (case find_empty_cell m of
        None \<Rightarrow> None
      | Some (Inl er) \<Rightarrow> Some (Inl er)
      | Some (Inr (p, m1)) \<Rightarrow>
          (let (a, m2) = next_id m1;
               m3 = place_agent a p (new_agent c a e m2)
           in case schedule_add a m3 of
                Inl er \<Rightarrow> Some (Inl er)
              | Inr m4 \<Rightarrow> seed_agents c e n m4))"

definition empty_agent :: agent where
  "empty_agent = \<lparr>cls = Fish, energy = 0, fertility_counter = 0, pos = None\<rparr>"

definition new_model ::
    "int \<Rightarrow> int \<Rightarrow> int \<Rightarrow> int \<Rightarrow> int \<Rightarrow> int \<Rightarrow> int \<Rightarrow> int \<Rightarrow> int \<Rightarrow> (nat \<Rightarrow> nat) \<Rightarrow> model" where
  "new_model w h N_fish N_sharks fie sie fft sft sef r =
     \<lparr>num_agents = N_fish + N_sharks, width = w, height = h,
      grid = (\<lambda>_. []), schedule = [], agents = (\<lambda>_. empty_agent), datacollector = [],
      fish_initial_energy = fie, shark_initial_energy = sie,
      fish_fertility_threshold = fft, shark_fertility_threshold = sft,
      shark_energy_from_fish = sef, current_id = 0, rng = r, rng_pos = 0\<rparr>"

definition WaTorModel_init ::
    "int \<Rightarrow> int \<Rightarrow> int \<Rightarrow> int \<Rightarrow> int \<Rightarrow> int \<Rightarrow> int \<Rightarrow> int \<Rightarrow> int \<Rightarrow> (nat \<Rightarrow> nat)
       \<Rightarrow> (error + model) option" where
  "WaTorModel_init w h N_fish N_sharks fie sie fft sft sef r =
     (case seed_agents Fish fie (nat N_fish)
             (new_model w h N_fish N_sharks fie sie fft sft sef r) of
        None \<Rightarrow> None
      | Some (Inl er) \<Rightarrow> Some (Inl er)
      | Some (Inr m1) \<Rightarrow> seed_agents Shark sie (nat N_sharks) m1)"

text \<open>
  One tick of the scheduler. The function also returns the ids it activated, in
  order: this log is not a value of the program, it records the calls of
  \<^verbatim>\<open>agent.step()\<close>.
\<close>

fun agent_buffer :: "nat list \<Rightarrow> model \<Rightarrow> error + (nat list \<times> model)" where
  "agent_buffer [] m = Inr ([], m)"
| "agent_buffer (k # ks) m =
     (if k \<in> set (schedule m)
      then and_then (agent_step k m)
             (\<lambda>m1. and_then (agent_buffer ks m1) (\<lambda>(log, m2). Inr (k # log, m2)))
      else agent_buffer ks m)"

definition RandomActivation_step :: "model \<Rightarrow> error + (nat list \<times> model)" where
  "RandomActivation_step m =
     (let (agent_keys, m1) = shuffle (schedule m) m in agent_buffer agent_keys m1)"

definition collect :: "model \<Rightarrow> model" where
  "collect m = m\<lparr>datacollector := datacollector m @ [get_grid m]\<rparr>"

definition WaTorModel_step :: "model \<Rightarrow> error + (nat list \<times> model)" where
  "WaTorModel_step m = RandomActivation_step (collect m)"

text \<open>The driver loop \<^verbatim>\<open>for i in range(MAX_ITERATIONS): model.step()\<close>, with the
  activation logs of its ticks, oldest first.\<close>

fun run_ticks :: "nat \<Rightarrow> model \<Rightarrow> error + (nat list list \<times> model)" where
  "run_ticks 0 m = Inr ([], m)"
| "run_ticks (Suc n) m =
     and_then (WaTorModel_step m)
       (\<lambda>(log, m1). and_then (run_ticks n m1) (\<lambda>(logs, m2). Inr (log # logs, m2)))"

subsection \<open>Example states\<close>

text \<open>
  A 3 by 3 pond. Fish 1 and its offspring, fish 3, share the cell (0, 0); shark 2 is
  at (1, 1), so the shared cell is the only cell of its neighbourhood that holds a
  fish. The random source delivers the draws 0, 1, 2, ...
\<close>

definition pond_agents :: "nat \<Rightarrow> agent" where
  "pond_agents =
     (\<lambda>_. empty_agent)
       (1 := \<lparr>cls = Fish, energy = 5, fertility_counter = 0, pos = Some (0, 0)\<rparr>,
        2 := \<lparr>cls = Shark, energy = 4, fertility_counter = 0, pos = Some (1, 1)\<rparr>,
        3 := \<lparr>cls = Fish, energy = 20, fertility_counter = 0, pos = Some (0, 0)\<rparr>)"

definition pond :: model where
  "pond =
     \<lparr>num_agents = 2, width = 3, height = 3,
      grid = (\<lambda>_. [])((0, 0) := [1, 3], (1, 1) := [2]),
      schedule = [1, 2, 3], agents = pond_agents, datacollector = [],
      fish_initial_energy = 20, shark_initial_energy = 4,
      fish_fertility_threshold = 6, shark_fertility_threshold = 10,
      shark_energy_from_fish = 8, current_id = 3, rng = (\<lambda>i. i), rng_pos = 0\<rparr>"

subsection \<open>Notions used in the statements\<close>

text \<open>The configuration a model was built with; no operation changes it.\<close>

definition params :: "model \<Rightarrow> int \<times> int \<times> int \<times> int \<times> int \<times> int \<times> int" where
  "params m = (width m, height m, fish_initial_energy m, shark_initial_energy m,
     fish_fertility_threshold m, shark_fertility_threshold m, shark_energy_from_fish m)"


text \<open>The ids that occupy some cell of the grid.\<close>

definition occupants :: "model \<Rightarrow> nat set" where
  "occupants m = (\<Union>p. set (grid m p))"


text \<open>
  What every operation of a run guarantees: the configuration and the random stream
  stay, ids are only issued upwards, the roster and the grid gain no id except ids
  issued meanwhile, and an agent keeps its class.
\<close>

definition advances :: "model \<Rightarrow> model \<Rightarrow> bool" where
  "advances m m' \<longleftrightarrow>
     params m' = params m \<and> rng m' = rng m \<and> current_id m \<le> current_id m' \<and>
     set (schedule m') \<subseteq> set (schedule m) \<union> {current_id m <.. current_id m'} \<and>
     occupants m' \<subseteq> occupants m \<union> {current_id m <.. current_id m'} \<and>
     (\<forall>b. b \<le> current_id m \<longrightarrow> cls (agents m' b) = cls (agents m b))"

text \<open>The agent knows its cell, occurs there once, and occurs in no other cell.\<close>

definition placed_once :: "nat \<Rightarrow> model \<Rightarrow> bool" where
  "placed_once a m \<longleftrightarrow>
     (\<exists>p. pos (agents m a) = Some p \<and> count (mset (grid m p)) a = 1 \<and>
          (\<forall>q. q \<noteq> p \<longrightarrow> a \<notin> set (grid m q)))"


text \<open>The fertility threshold of a class of agents.\<close>

definition threshold_of :: "model \<Rightarrow> agent_class \<Rightarrow> int" where
  "threshold_of m c =
     (case c of Fish \<Rightarrow> fish_fertility_threshold m | Shark \<Rightarrow> shark_fertility_threshold m)"

text \<open>Every agent of the roster has its fertility counter between 0 and its threshold minus 1.\<close>

definition fertility_in_range :: "model \<Rightarrow> bool" where
  "fertility_in_range m \<longleftrightarrow>
     (\<forall>j\<in>set (schedule m).
        0 \<le> fertility_counter (agents m j) \<and>
        fertility_counter (agents m j) \<le> threshold_of m (cls (agents m j)) - 1)"

text \<open>
  An operation that issues no id, adds no agent to the roster and changes neither the
  class nor the fertility counter of any agent.
\<close>

definition quiet :: "model \<Rightarrow> model \<Rightarrow> bool" where
  "quiet m m' \<longleftrightarrow>
     params m' = params m \<and> current_id m' = current_id m \<and>
     set (schedule m') \<subseteq> set (schedule m) \<and>
     (\<forall>b. fertility_counter (agents m' b) = fertility_counter (agents m b) \<and>
          cls (agents m' b) = cls (agents m b))"

text \<open>The coordinates of the cells of the grid.\<close>

definition in_grid :: "model \<Rightarrow> coord \<Rightarrow> bool" where
  "in_grid m p \<longleftrightarrow> 0 \<le> fst p \<and> fst p < width m \<and> 0 \<le> snd p \<and> snd p < height m"

text \<open>
  During seeding the random source is used by \<^verbatim>\<open>find_empty_cell\<close> alone, two draws
  for each cell it tries: the \<open>j\<close>-th cell tried is made of the draws \<open>2 * j\<close> and
  \<open>2 * j + 1\<close>.
\<close>

definition candidate :: "(nat \<Rightarrow> nat) \<Rightarrow> int \<Rightarrow> int \<Rightarrow> nat \<Rightarrow> coord" where
  "candidate r w h j = (int (r (2 * j) mod nat w), int (r (2 * j + 1) mod nat h))"

text \<open>
  A random source is fair for seeding when every cell of the grid is tried again and
  again. A uniform source is fair with probability 1.
\<close>

definition fair_source :: "(nat \<Rightarrow> nat) \<Rightarrow> int \<Rightarrow> int \<Rightarrow> bool" where
  "fair_source r w h \<longleftrightarrow>
     (\<forall>t x y. 0 \<le> x \<and> x < w \<and> 0 \<le> y \<and> y < h \<longrightarrow> (\<exists>j\<ge>t. candidate r w h j = (x, y)))"

text \<open>
  The states of seeding: the roster holds distinct ids issued so far, each agent of
  the roster has fertility counter 0 and is the only occupant of its cell, a cell of
  the grid, and there are as many occupied cells as agents.
\<close>

definition seeded :: "model \<Rightarrow> bool" where
  "seeded m \<longleftrightarrow>
     0 < width m \<and> 0 < height m \<and> even (rng_pos m) \<and> distinct (schedule m) \<and>
     (\<forall>k\<in>set (schedule m). k \<le> current_id m) \<and>
     (\<forall>p. grid m p \<noteq> [] \<longrightarrow> in_grid m p) \<and>
     card {p. grid m p \<noteq> []} = length (schedule m) \<and>
     (\<forall>i\<in>set (schedule m).
        fertility_counter (agents m i) = 0 \<and>
        (\<exists>p. pos (agents m i) = Some p \<and> in_grid m p \<and> grid m p = [i]))"

text \<open>The effect of one iteration of a seeding loop, once the cell \<open>p\<close> is found.\<close>

definition seed_one :: "agent_class \<Rightarrow> int \<Rightarrow> coord \<Rightarrow> model \<Rightarrow> model" where
  "seed_one c e p m =
     m\<lparr>current_id := Suc (current_id m),
       grid := (grid m)(p := grid m p @ [Suc (current_id m)]),
       agents := (agents m)(Suc (current_id m) :=
          \<lparr>cls = c, energy = e, fertility_counter = 0, pos = Some p\<rparr>),
       schedule := schedule m @ [Suc (current_id m)]\<rparr>"


text \<open>The same state with another stream of draws behind its random source.\<close>

definition with_rng :: "(nat \<Rightarrow> nat) \<Rightarrow> model \<Rightarrow> model" where
  "with_rng r m = m\<lparr>rng := r\<rparr>"


text \<open>A later state of the same random source.\<close>

definition follows :: "model \<Rightarrow> model \<Rightarrow> bool" where
  "follows m m' \<longleftrightarrow> rng m' = rng m \<and> rng_pos m \<le> rng_pos m'"

section \<open>Properties\<close>

subsection \<open>Sequencing\<close>

lemma and_then_Inl [simp]: "and_then (Inl e) f = Inl e"
  by (simp add: and_then_def)

lemma and_then_Inr [simp]: "and_then (Inr x) f = f x"
  by (simp add: and_then_def)

lemma and_then_eq_Inr: "and_then r f = Inr y \<longleftrightarrow> (\<exists>x. r = Inr x \<and> f x = Inr y)"
  by (cases r) simp_all

subsection \<open>The snapshot\<close>

lemma length_get_grid: "length (get_grid m) = nat (width m)"
  by (simp add: get_grid_def)

lemma length_get_grid_row: "x < nat (width m) \<Longrightarrow> length (get_grid m ! x) = nat (height m)"
  by (simp add: get_grid_def)

text \<open>
  Claim C7. The snapshot classifies a cell from the first element of its occupant
  sequence alone: a cell without occupants is 0 (EMPTY), a cell whose first occupant is
  a Fish is 1, a cell whose first occupant is a Shark is 2. The occupants after the
  first (\<open>rest\<close> below) do not enter the classification.
\<close>

theorem get_grid_first_occupant:
  assumes "x < nat (width m)" and "y < nat (height m)"
  shows "get_grid m ! x ! y =
     (case grid m (int x, int y) of
        [] \<Rightarrow> 0
      | a # rest \<Rightarrow> (case cls (agents m a) of Fish \<Rightarrow> 1 | Shark \<Rightarrow> 2))"
  using assms
  by (simp add: get_grid_def classify_def split: list.splits agent_class.splits)

theorem get_grid_first_occupant_witness:
  "0 < nat (width pond) \<and> 0 < nat (height pond) \<and> grid pond (0, 0) = [1, 3]
   \<and> get_grid pond ! 0 ! 0 = 1"
  using get_grid_first_occupant [of 0 pond 0]
  by (simp add: pond_def pond_agents_def)

subsection \<open>Grid and random-source operations\<close>

lemma choice_nonempty:
  "xs \<noteq> [] \<Longrightarrow>
   choice xs m = Inr (xs ! (rng m (rng_pos m) mod length xs), m\<lparr>rng_pos := Suc (rng_pos m)\<rparr>)"
  by (simp add: choice_def randbelow_def)

lemma remove_agent_placed:
  "pos (agents m a) = Some p \<Longrightarrow> a \<in> set (grid m p) \<Longrightarrow>
   remove_agent a m = Inr (m\<lparr>grid := (grid m)(p := remove1 a (grid m p)),
                      agents := (agents m)(a := (agents m a)\<lparr>pos := None\<rparr>)\<rparr>)"
  by (simp add: remove_agent_def)

lemma remove_agent_Inr:
  "remove_agent a m = Inr m' \<longleftrightarrow>
   (\<exists>p. pos (agents m a) = Some p \<and> a \<in> set (grid m p) \<and>
        m' = m\<lparr>grid := (grid m)(p := remove1 a (grid m p)),
                      agents := (agents m)(a := (agents m a)\<lparr>pos := None\<rparr>)\<rparr>)"
  by (auto simp: remove_agent_def split: option.splits)

lemma move_agent_placed:
  "pos (agents m a) = Some p \<Longrightarrow> a \<in> set (grid m p) \<Longrightarrow>
   move_agent a q m = Inr (place_agent a q (m\<lparr>grid := (grid m)(p := remove1 a (grid m p)),
                      agents := (agents m)(a := (agents m a)\<lparr>pos := None\<rparr>)\<rparr>))"
  by (simp add: move_agent_def remove_agent_placed)

subsection \<open>Movement of a Fish\<close>

text \<open>
  Claim C6. A Fish that stands on the cell \<open>(x, y)\<close> of the grid gathers the four
  orthogonal neighbour cells, each coordinate wrapped modulo the width or the height,
  and keeps the empty ones (\<open>es\<close>). If none is empty the Fish stays: the state is
  unchanged. Otherwise it moves to the cell \<open>q\<close> of \<open>es\<close> selected by the random
  source, which becomes its position and holds it alone, and it leaves its former
  cell. The random source consumes one raw draw and reduces it modulo the number of
  empty neighbours, so every empty neighbour is the residue of equally many draws.
\<close>

theorem Fish_move_empty_neighbour:
  assumes "pos (agents m a) = Some (x, y)" and "a \<in> set (grid m (x, y))"
  shows "let es = filter (\<lambda>q. grid m q = [])
                    [((x - 1) mod width m, y mod height m), (x mod width m, (y - 1) mod height m),
                     (x mod width m, (y + 1) mod height m), ((x + 1) mod width m, y mod height m)];
             q = es ! (rng m (rng_pos m) mod length es)
         in (es = [] \<longrightarrow> Fish_move a m = Inr m) \<and>
            (es \<noteq> [] \<longrightarrow> q \<in> set es \<and>
               Fish_move a m =
                 Inr (m\<lparr>rng_pos := Suc (rng_pos m),
                        grid := (grid m)((x, y) := remove1 a (grid m (x, y)), q := [a]),
                        agents := (agents m)(a := (agents m a)\<lparr>pos := Some q\<rparr>)\<rparr>))"
proof -
  define es where "es = filter (\<lambda>q. grid m q = [])
                    [((x - 1) mod width m, y mod height m), (x mod width m, (y - 1) mod height m),
                     (x mod width m, (y + 1) mod height m), ((x + 1) mod width m, y mod height m)]"
  define q where "q = es ! (rng m (rng_pos m) mod length es)"
  have es: "filter (is_cell_empty m) (get_neighborhood m (x, y) False) = es"
    by (simp add: es_def get_neighborhood_def is_cell_empty_def[abs_def])
  have stay: "Fish_move a m = Inr m" if "es = []"
    using that assms es by (simp add: Fish_move_def Let_def)
  have go: "q \<in> set es \<and> Fish_move a m =
                 Inr (m\<lparr>rng_pos := Suc (rng_pos m),
                        grid := (grid m)((x, y) := remove1 a (grid m (x, y)), q := [a]),
                        agents := (agents m)(a := (agents m a)\<lparr>pos := Some q\<rparr>)\<rparr>)"
    if ne: "es \<noteq> []"
  proof -
    have qin: "q \<in> set es" unfolding q_def using ne by simp
    then have qe: "grid m q = []" unfolding es_def set_filter by blast
    with assms(2) have neq: "q \<noteq> (x, y)" by auto
    have "Fish_move a m = move_agent a q (m\<lparr>rng_pos := Suc (rng_pos m)\<rparr>)"
      using ne assms es by (simp add: Fish_move_def Let_def choice_nonempty q_def)
    also have "\<dots> = Inr (m\<lparr>rng_pos := Suc (rng_pos m),
                        grid := (grid m)((x, y) := remove1 a (grid m (x, y)), q := [a]),
                        agents := (agents m)(a := (agents m a)\<lparr>pos := Some q\<rparr>)\<rparr>)"
      using assms qe neq by (simp add: move_agent_placed place_agent_def)
    finally show ?thesis using qin by simp
  qed
  show ?thesis
    using stay go unfolding Let_def es_def[symmetric] q_def[symmetric] by blast
qed

theorem Fish_move_empty_neighbour_witness:
  "pos (agents pond 1) = Some (0, 0) \<and> 1 \<in> set (grid pond (0, 0)) \<and>
   (\<exists>m'. Fish_move 1 pond = Inr m' \<and> pos (agents m' 1) = Some (2, 0) \<and> grid m' (2, 0) = [1]
      \<and> grid m' (0, 0) = [3])"
  using Fish_move_empty_neighbour [of pond 1 0 0]
  by (simp add: pond_def pond_agents_def Let_def)

subsection \<open>Reproduction\<close>

lemma Fish_reproduce_offspring:
  assumes "pos (agents m a) = Some p" and "a \<le> current_id m"
    and "\<forall>k\<in>set (schedule m). k \<le> current_id m"
    and "fish_fertility_threshold m \<le> fertility_counter (agents m a) + 1"
  shows "Fish_reproduce a m =
     Inr (m\<lparr>current_id := Suc (current_id m),
            schedule := schedule m @ [Suc (current_id m)],
            grid := (grid m)(p := grid m p @ [Suc (current_id m)]),
            agents := (agents m)
              (a := (agents m a)\<lparr>fertility_counter := 0\<rparr>,
               Suc (current_id m) :=
                 \<lparr>cls = Fish, energy = fish_initial_energy m, fertility_counter = 0, pos = Some p\<rparr>)\<rparr>)"
  using assms
  by (auto simp: Fish_reproduce_def set_fertility_def next_id_def new_agent_def place_agent_def
        schedule_add_def Let_def fun_upd_twist)

lemma Shark_reproduce_offspring:
  assumes "pos (agents m a) = Some p" and "a \<le> current_id m"
    and "\<forall>k\<in>set (schedule m). k \<le> current_id m"
    and "shark_fertility_threshold m \<le> fertility_counter (agents m a) + 1"
  shows "Shark_reproduce a m =
     Inr (m\<lparr>current_id := Suc (current_id m),
            schedule := schedule m @ [Suc (current_id m)],
            grid := (grid m)(p := grid m p @ [Suc (current_id m)]),
            agents := (agents m)
              (a := (agents m a)\<lparr>fertility_counter := 0\<rparr>,
               Suc (current_id m) :=
                 \<lparr>cls = Shark, energy = shark_initial_energy m, fertility_counter = 0, pos = Some p\<rparr>)\<rparr>)"
  using assms
  by (auto simp: Shark_reproduce_def set_fertility_def next_id_def new_agent_def place_agent_def
        schedule_add_def Let_def fun_upd_twist)

text \<open>
  Claim C2. Let the agent \<open>a\<close> stand on the cell \<open>p\<close>, and let every id issued so far
  be at most \<open>current_id\<close>. When the incremented fertility counter of \<open>a\<close> reaches the
  threshold of its variant, reproduction succeeds and creates exactly one offspring: its
  id \<open>Suc (current_id m)\<close> is fresh (it is not in the roster), it is appended to the
  roster, it has the class of the parent, the configured initial energy of that class
  and fertility counter 0, and it is appended to the occupants of \<open>p\<close> whatever that
  cell holds, so that \<open>p\<close> holds parent and offspring together. The fertility counter
  of the parent is reset to 0. Nothing else changes.
\<close>

theorem reproduce_offspring:
  assumes "pos (agents m a) = Some p" and "a \<le> current_id m"
    and "\<forall>k\<in>set (schedule m). k \<le> current_id m"
  shows "Suc (current_id m) \<notin> set (schedule m) \<and>
    (fish_fertility_threshold m \<le> fertility_counter (agents m a) + 1 \<longrightarrow>
     Fish_reproduce a m =
       Inr (m\<lparr>current_id := Suc (current_id m),
            schedule := schedule m @ [Suc (current_id m)],
            grid := (grid m)(p := grid m p @ [Suc (current_id m)]),
            agents := (agents m)
              (a := (agents m a)\<lparr>fertility_counter := 0\<rparr>,
               Suc (current_id m) :=
                 \<lparr>cls = Fish, energy = fish_initial_energy m, fertility_counter = 0, pos = Some p\<rparr>)\<rparr>)) \<and>
    (shark_fertility_threshold m \<le> fertility_counter (agents m a) + 1 \<longrightarrow>
     Shark_reproduce a m =
       Inr (m\<lparr>current_id := Suc (current_id m),
            schedule := schedule m @ [Suc (current_id m)],
            grid := (grid m)(p := grid m p @ [Suc (current_id m)]),
            agents := (agents m)
              (a := (agents m a)\<lparr>fertility_counter := 0\<rparr>,
               Suc (current_id m) :=
                 \<lparr>cls = Shark, energy = shark_initial_energy m, fertility_counter = 0, pos = Some p\<rparr>)\<rparr>))"
proof -
  have "Suc (current_id m) \<notin> set (schedule m)"
    using assms(3) by auto
  then show ?thesis
    using Fish_reproduce_offspring [OF assms] Shark_reproduce_offspring [OF assms] by blast
qed

theorem reproduce_offspring_witness:
  "pos (agents pond 1) = Some (0, 0) \<and> 1 \<le> current_id pond
   \<and> schedule pond = [1, 2, 3] \<and> current_id pond = 3
   \<and> (\<exists>m'. Fish_reproduce 1 (pond\<lparr>fish_fertility_threshold := 1\<rparr>) = Inr m'
        \<and> schedule m' = [1, 2, 3, 4] \<and> grid m' (0, 0) = [1, 3, 4]
        \<and> agents m' 4 = \<lparr>cls = Fish, energy = 20, fertility_counter = 0, pos = Some (0, 0)\<rparr>
        \<and> fertility_counter (agents m' 1) = 0)"
  using reproduce_offspring [of "pond\<lparr>fish_fertility_threshold := 1\<rparr>" 1 "(0, 0)"]
  by (simp add: pond_def pond_agents_def)

subsection \<open>Energy\<close>

lemma move_agent_energy:
  "move_agent a q m = Inr m' \<Longrightarrow> energy (agents m' b) = energy (agents m b)"
  by (auto simp: move_agent_def remove_agent_Inr place_agent_def and_then_eq_Inr)

lemma move_agent_params:
  "move_agent a q m = Inr m' \<Longrightarrow> params m' = params m \<and> current_id m' = current_id m"
  by (auto simp: move_agent_def remove_agent_Inr place_agent_def and_then_eq_Inr params_def)

lemma Fish_move_energy:
  "Fish_move a m = Inr m' \<Longrightarrow> energy (agents m' b) = energy (agents m b)"
  by (auto simp: Fish_move_def Let_def choice_nonempty dest: move_agent_energy
           split: option.splits if_splits)

lemma Fish_move_params:
  "Fish_move a m = Inr m' \<Longrightarrow> params m' = params m \<and> current_id m' = current_id m"
  by (auto simp: Fish_move_def Let_def choice_nonempty params_def dest!: move_agent_params
           split: option.splits if_splits)

lemma Fish_reproduce_energy:
  "Fish_reproduce a m = Inr m' \<Longrightarrow> a \<le> current_id m \<Longrightarrow>
   energy (agents m' a) = energy (agents m a)"
  by (auto simp: Fish_reproduce_def set_fertility_def next_id_def new_agent_def place_agent_def
        schedule_add_def Let_def split: option.splits if_splits)

lemma Shark_reproduce_energy:
  "Shark_reproduce a m = Inr m' \<Longrightarrow> a \<le> current_id m \<Longrightarrow>
   energy (agents m' a) = energy (agents m a)"
  by (auto simp: Shark_reproduce_def set_fertility_def next_id_def new_agent_def place_agent_def
        schedule_add_def Let_def split: option.splits if_splits)

lemma die_if_exhausted_energy:
  "die_if_exhausted a m = Inr m' \<Longrightarrow> energy (agents m' b) = energy (agents m b)"
  by (auto simp: die_if_exhausted_def and_then_eq_Inr remove_agent_Inr schedule_remove_def
           split: if_splits)

lemma Shark_move_and_eat_energy:
  assumes "Shark_move_and_eat a m = Inr m'" and "pos (agents m a) = Some p"
  shows "energy (agents m' a) =
     (if filter (first_is_fish m) (get_neighborhood m p True) = [] then energy (agents m a)
      else energy (agents m a) + shark_energy_from_fish m)"
  using assms
  by (auto simp: Shark_move_and_eat_def Let_def choice_nonempty and_then_eq_Inr
        get_cell_list_contents_def remove_agent_Inr schedule_remove_def add_energy_def
        move_agent_def place_agent_def
      split: if_splits list.splits)

lemma Shark_move_and_eat_current_id:
  "Shark_move_and_eat a m = Inr m' \<Longrightarrow> current_id m' = current_id m"
  by (auto simp: Shark_move_and_eat_def Let_def choice_nonempty and_then_eq_Inr
        get_cell_list_contents_def remove_agent_Inr schedule_remove_def add_energy_def
        move_agent_def place_agent_def
      split: if_splits list.splits option.splits)

text \<open>
  Claim C1. An activation of an agent that has been created (its id is at most
  \<open>current_id\<close>) and stands on the cell \<open>p\<close> changes its energy as follows. A Fish loses
  exactly 1. A Shark that finds no cell with a Fish as first occupant among its eight
  neighbours loses exactly 1. A Shark that finds one eats: the configured bonus
  \<open>shark_energy_from_fish\<close> is added first and the decrement of the activation follows,
  so its energy after the activation is the prior energy minus 1 plus the bonus.
\<close>

theorem activation_energy:
  assumes "a \<le> current_id m" and "pos (agents m a) = Some p" and "agent_step a m = Inr m'"
  shows "energy (agents m' a) =
     (case cls (agents m a) of
        Fish \<Rightarrow> energy (agents m a) - 1
      | Shark \<Rightarrow>
          if filter (first_is_fish m) (get_neighborhood m p True) = []
          then energy (agents m a) - 1
          else energy (agents m a) + shark_energy_from_fish m - 1)"
proof (cases "cls (agents m a)")
  case Fish
  with assms(3) obtain m1 m2 where
    s1: "Fish_move a m = Inr m1" and
    s2: "Fish_reproduce a (add_energy a (- 1) m1) = Inr m2" and
    s3: "die_if_exhausted a m2 = Inr m'"
    by (auto simp: agent_step_def Fish_step_def and_then_eq_Inr)
  have "current_id m1 = current_id m" using Fish_move_params [OF s1] by simp
  with assms(1) have "a \<le> current_id (add_energy a (- 1) m1)" by (simp add: add_energy_def)
  from Fish_reproduce_energy [OF s2 this]
  have "energy (agents m2 a) = energy (agents m1 a) - 1" by (simp add: add_energy_def)
  with Fish_move_energy [OF s1] die_if_exhausted_energy [OF s3] Fish
  show ?thesis by simp
next
  case Shark
  with assms(3) obtain m1 m2 where
    s1: "Shark_move_and_eat a m = Inr m1" and
    s2: "Shark_reproduce a m1 = Inr m2" and
    s3: "die_if_exhausted a (add_energy a (- 1) m2) = Inr m'"
    by (auto simp: agent_step_def Shark_step_def and_then_eq_Inr)
  have "a \<le> current_id m1" using Shark_move_and_eat_current_id [OF s1] assms(1) by simp
  from Shark_reproduce_energy [OF s2 this] die_if_exhausted_energy [OF s3]
  have "energy (agents m' a) = energy (agents m1 a) - 1" by (simp add: add_energy_def)
  with Shark_move_and_eat_energy [OF s1 assms(2)] Shark show ?thesis by simp
qed

lemma pond_shark_step:
  "\<exists>m'. agent_step 2 pond = Inr m'"
  by (simp add: agent_step_def Shark_step_def Shark_move_and_eat_def Shark_reproduce_def
      die_if_exhausted_def pond_def pond_agents_def get_neighborhood_def first_is_fish_def
      get_cell_list_contents_def choice_nonempty remove_agent_def schedule_remove_def
      move_agent_def place_agent_def add_energy_def set_fertility_def Let_def)

theorem activation_energy_witness:
  "2 \<le> current_id pond \<and> pos (agents pond 2) = Some (1, 1) \<and>
   (\<exists>m'. agent_step 2 pond = Inr m' \<and> energy (agents m' 2) = 11)"
proof -
  obtain m' where s: "agent_step 2 pond = Inr m'" using pond_shark_step by blast
  have "2 \<le> current_id pond" "pos (agents pond 2) = Some (1, 1)"
    by (simp_all add: pond_def pond_agents_def)
  from activation_energy [OF this s]
  have "energy (agents m' 2) = 11"
    by (simp add: pond_def pond_agents_def get_neighborhood_def first_is_fish_def
        get_cell_list_contents_def)
  with s show ?thesis by (simp add: pond_def pond_agents_def)
qed

subsection \<open>Predation\<close>

text \<open>
  Claim C10. Let the Shark \<open>a\<close> stand on \<open>p\<close>, let \<open>q\<close> be the cell the random source
  selects among the neighbour cells whose first occupant is a Fish, and let \<open>f\<close> be
  that first occupant, a live Fish that knows \<open>q\<close> as its position, and \<open>rest\<close> the
  occupants of \<open>q\<close> after it. Then the move-and-eat step succeeds, removes \<open>f\<close> and
  nothing else from \<open>q\<close>, takes \<open>f\<close> out of the roster, and moves the Shark to the end
  of the occupants of \<open>q\<close>: the occupants \<open>rest\<close> stay, and the Shark shares the cell
  with them. Every cell other than \<open>p\<close> and \<open>q\<close> is unchanged.
\<close>

theorem Shark_eats_first_occupant:
  assumes "pos (agents m a) = Some p" and "a \<in> set (grid m p)" and "cls (agents m a) = Shark"
    and "fish_positions = filter (first_is_fish m) (get_neighborhood m p True)"
    and "fish_positions \<noteq> []"
    and "q = fish_positions ! (rng m (rng_pos m) mod length fish_positions)"
    and "grid m q = f # rest"
    and "pos (agents m f) = Some q" and "f \<in> set (schedule m)"
  shows "\<exists>m'. Shark_move_and_eat a m = Inr m' \<and>
      grid m' q = (if q = p then remove1 a rest else rest) @ [a] \<and>
      (q \<noteq> p \<longrightarrow> grid m' p = remove1 a (grid m p)) \<and>
      (\<forall>r. r \<noteq> p \<and> r \<noteq> q \<longrightarrow> grid m' r = grid m r) \<and>
      pos (agents m' a) = Some q \<and> pos (agents m' f) = None \<and>
      schedule m' = removeAll f (schedule m)"
proof -
  have "q \<in> set fish_positions" using assms(5,6) by simp
  then have "first_is_fish m q" unfolding assms(4) set_filter by blast
  then have "cls (agents m f) = Fish"
    using assms(7) by (simp add: first_is_fish_def get_cell_list_contents_def)
  with assms(3) have af: "a \<noteq> f" by auto
  define m1 where "m1 = m\<lparr>rng_pos := Suc (rng_pos m)\<rparr>"
  define m2 where "m2 = m1\<lparr>grid := (grid m1)(q := rest),
                      agents := (agents m1)(f := (agents m1 f)\<lparr>pos := None\<rparr>)\<rparr>"
  define m3 where "m3 = m2\<lparr>schedule := removeAll f (schedule m2)\<rparr>"
  have c: "choice fish_positions m = Inr (q, m1)"
    using assms(5,6) by (simp add: choice_nonempty m1_def)
  have r: "remove_agent f m1 = Inr m2"
    using assms(7,8) by (simp add: remove_agent_def m1_def m2_def)
  have s: "schedule_remove f m2 = Inr m3"
    using assms(9) by (simp add: schedule_remove_def m1_def m2_def m3_def)
  have pa: "pos (agents m3 a) = Some p" using af assms(1) by (simp add: m1_def m2_def m3_def)
  have ina: "a \<in> set (grid m3 p)"
    using af assms(2,7) by (auto simp: m1_def m2_def m3_def)
  note mv = move_agent_placed [OF pa ina, of q]
  have "Shark_move_and_eat a m =
      Inr (add_energy a (shark_energy_from_fish m)
        (place_agent a q (m3\<lparr>grid := (grid m3)(p := remove1 a (grid m3 p)),
                      agents := (agents m3)(a := (agents m3 a)\<lparr>pos := None\<rparr>)\<rparr>)))"
    using assms(1,4,5,7) c r s mv
    by (simp add: Shark_move_and_eat_def Let_def get_cell_list_contents_def m1_def
         place_agent_def m2_def m3_def)
  then show ?thesis
    using af assms(7)
    by (auto simp: add_energy_def place_agent_def m1_def m2_def m3_def)
qed

theorem Shark_eats_first_occupant_witness:
  "\<exists>m'. Shark_move_and_eat 2 pond = Inr m' \<and> grid pond (0, 0) = [1, 3] \<and>
      grid m' (0, 0) = [3, 2] \<and> grid m' (1, 1) = [] \<and> schedule m' = [2, 3]"
  using Shark_eats_first_occupant [of pond 2 "(1, 1)" "[(0, 0)]" "(0, 0)" 1 "[3]"]
  by (simp add: pond_def pond_agents_def get_neighborhood_def first_is_fish_def
        get_cell_list_contents_def) blast

subsection \<open>One tick of the scheduler\<close>







lemmas operation_defs =
  agent_step_def Fish_step_def Fish_move_def Fish_reproduce_def die_if_exhausted_def
  Shark_step_def Shark_move_and_eat_def Shark_reproduce_def
  get_neighborhood_def first_is_fish_def is_cell_empty_def get_cell_list_contents_def
  choice_nonempty remove_agent_def schedule_remove_def schedule_add_def
  move_agent_def place_agent_def add_energy_def set_fertility_def next_id_def new_agent_def
  Let_def



subsection \<open>Removal of agents\<close>

lemma advances_refl [simp]: "advances m m"
  by (simp add: advances_def)

lemma advances_trans: "advances m m1 \<Longrightarrow> advances m1 m2 \<Longrightarrow> advances m m2"
  unfolding advances_def by (auto; fastforce)


lemma in_occupants: "x \<in> occupants m \<longleftrightarrow> (\<exists>p. x \<in> set (grid m p))"
  by (auto simp: occupants_def)

lemma occupantsI: "x \<in> set (grid m p) \<Longrightarrow> x \<in> occupants m"
  unfolding occupants_def by blast

lemma place_agent_occupants: "occupants (place_agent a p m) \<subseteq> insert a (occupants m)"
proof
  fix x assume "x \<in> occupants (place_agent a p m)"
  then obtain q where "x \<in> set (grid (place_agent a p m) q)" unfolding in_occupants ..
  then have "x = a \<or> x \<in> set (grid m q)"
    by (cases "q = p") (auto simp: place_agent_def)
  then show "x \<in> insert a (occupants m)" by (auto intro: occupantsI)
qed

lemma remove_agent_occupants:
  assumes "remove_agent a m = Inr m'"
  shows "occupants m' \<subseteq> occupants m"
proof
  from assms obtain p where
    g: "grid m' = (grid m)(p := remove1 a (grid m p))"
    by (auto simp: remove_agent_Inr)
  fix x assume "x \<in> occupants m'"
  then obtain q where "x \<in> set (grid m' q)" unfolding in_occupants ..
  then have "x \<in> set (grid m q)"
    unfolding g using set_remove1_subset [of a "grid m p"] by (cases "q = p") auto
  then show "x \<in> occupants m" unfolding in_occupants ..
qed

lemma remove_agent_member:
  "remove_agent a m = Inr m' \<Longrightarrow> a \<in> occupants m"
  unfolding in_occupants by (auto simp: remove_agent_Inr)

lemma remove_agent_advances: "remove_agent a m = Inr m' \<Longrightarrow> advances m m'"
  using remove_agent_occupants [of a m m']
  by (auto simp: advances_def remove_agent_Inr params_def)

lemma move_agent_advances: "move_agent a q m = Inr m' \<Longrightarrow> advances m m'"
proof -
  assume "move_agent a q m = Inr m'"
  then obtain m1 where r: "remove_agent a m = Inr m1" and p: "m' = place_agent a q m1"
    by (auto simp: move_agent_def and_then_eq_Inr)
  have "occupants m' \<subseteq> occupants m"
    using place_agent_occupants [of a q m1] remove_agent_occupants [OF r]
      remove_agent_member [OF r] p by auto
  moreover have "params m' = params m" "rng m' = rng m" "current_id m' = current_id m"
     "schedule m' = schedule m" "\<And>b. cls (agents m' b) = cls (agents m b)"
    using r p by (auto simp: remove_agent_Inr place_agent_def params_def)
  ultimately show ?thesis by (simp add: advances_def)
qed

lemma rng_pos_advances [simp]: "advances m (m\<lparr>rng_pos := k\<rparr>) "
  by (simp add: advances_def params_def occupants_def)

lemma advances_rng_pos: "advances (m\<lparr>rng_pos := k\<rparr>) m' \<Longrightarrow> advances m m'"
  by (simp add: advances_def params_def occupants_def)

lemma Fish_move_advances: "Fish_move a m = Inr m' \<Longrightarrow> advances m m'"
  by (auto simp: Fish_move_def Let_def choice_nonempty split: option.splits if_splits
       dest!: move_agent_advances advances_rng_pos)

lemma advancesI:
  assumes "params m' = params m" and "rng m' = rng m" and "current_id m \<le> current_id m'"
    and "set (schedule m') \<subseteq> set (schedule m) \<union> {current_id m <.. current_id m'}"
    and "\<And>p. set (grid m' p) \<subseteq> occupants m \<union> {current_id m <.. current_id m'}"
    and "\<And>b. b \<le> current_id m \<Longrightarrow> cls (agents m' b) = cls (agents m b)"
  shows "advances m m'"
proof -
  have "occupants m' \<subseteq> occupants m \<union> {current_id m <.. current_id m'}"
  proof
    fix x assume "x \<in> occupants m'"
    then obtain p where "x \<in> set (grid m' p)" unfolding in_occupants ..
    with assms(5) [of p] show "x \<in> occupants m \<union> {current_id m <.. current_id m'}"
      by blast
  qed
  with assms(1-4,6) show ?thesis unfolding advances_def by blast
qed

lemma set_fertility_advances [simp]: "advances m (set_fertility a v m)"
  by (rule advancesI) (auto simp: set_fertility_def params_def intro: occupantsI)

lemma add_energy_advances [simp]: "advances m (add_energy a d m)"
  by (rule advancesI) (auto simp: add_energy_def params_def intro: occupantsI)

lemma collect_advances [simp]: "advances m (collect m)"
  by (rule advancesI) (auto simp: collect_def params_def intro: occupantsI)

lemma schedule_remove_advances: "schedule_remove a m = Inr m' \<Longrightarrow> advances m m'"
  by (rule advancesI) (auto simp: schedule_remove_def params_def intro: occupantsI split: if_splits)

lemma Fish_reproduce_advances:
  assumes "Fish_reproduce a m = Inr m'"
  shows "advances m m'"
proof (rule advancesI)
  show "params m' = params m" "rng m' = rng m" "current_id m \<le> current_id m'"
    "set (schedule m') \<subseteq> set (schedule m) \<union> {current_id m <.. current_id m'}"
    using assms
    by (auto simp: Fish_reproduce_def set_fertility_def next_id_def new_agent_def place_agent_def
        schedule_add_def Let_def params_def split: option.splits if_splits)
  show "set (grid m' p) \<subseteq> occupants m \<union> {current_id m <.. current_id m'}" for p
    using assms
    by (auto simp: Fish_reproduce_def set_fertility_def next_id_def new_agent_def place_agent_def
        schedule_add_def Let_def split: option.splits if_splits intro: occupantsI)
  show "cls (agents m' b) = cls (agents m b)" if "b \<le> current_id m" for b
    using assms that
    by (auto simp: Fish_reproduce_def set_fertility_def next_id_def new_agent_def place_agent_def
        schedule_add_def Let_def split: option.splits if_splits)
qed

lemma Shark_reproduce_advances:
  assumes "Shark_reproduce a m = Inr m'"
  shows "advances m m'"
proof (rule advancesI)
  show "params m' = params m" "rng m' = rng m" "current_id m \<le> current_id m'"
    "set (schedule m') \<subseteq> set (schedule m) \<union> {current_id m <.. current_id m'}"
    using assms
    by (auto simp: Shark_reproduce_def set_fertility_def next_id_def new_agent_def place_agent_def
        schedule_add_def Let_def params_def split: option.splits if_splits)
  show "set (grid m' p) \<subseteq> occupants m \<union> {current_id m <.. current_id m'}" for p
    using assms
    by (auto simp: Shark_reproduce_def set_fertility_def next_id_def new_agent_def place_agent_def
        schedule_add_def Let_def split: option.splits if_splits intro: occupantsI)
  show "cls (agents m' b) = cls (agents m b)" if "b \<le> current_id m" for b
    using assms that
    by (auto simp: Shark_reproduce_def set_fertility_def next_id_def new_agent_def place_agent_def
        schedule_add_def Let_def split: option.splits if_splits)
qed

lemma die_if_exhausted_advances: "die_if_exhausted a m = Inr m' \<Longrightarrow> advances m m'"
  by (auto simp: die_if_exhausted_def and_then_eq_Inr split: if_splits
      dest!: remove_agent_advances schedule_remove_advances intro: advances_trans)

lemma Shark_move_and_eat_advances:
  assumes "Shark_move_and_eat a m = Inr m'"
  shows "advances m m'"
proof -
  from assms obtain p where p: "pos (agents m a) = Some p"
    by (auto simp: Shark_move_and_eat_def split: option.splits)
  define fp where "fp = filter (first_is_fish m) (get_neighborhood m p True)"
  define es where "es = filter (is_cell_empty m) (get_neighborhood m p True)"
  show ?thesis
  proof (cases "fp = []")
    case True
    with assms p show ?thesis
      by (auto simp: Shark_move_and_eat_def Let_def fp_def choice_nonempty split: if_splits
          dest!: move_agent_advances advances_rng_pos)
  next
    case False
    define q where "q = fp ! (rng m (rng_pos m) mod length fp)"
    from assms p False obtain f m2 m3 m4 where
      "remove_agent f (m\<lparr>rng_pos := Suc (rng_pos m)\<rparr>) = Inr m2"
      "schedule_remove f m2 = Inr m3" "move_agent a q m3 = Inr m4"
      "m' = add_energy a (shark_energy_from_fish m4) m4"
      by (auto simp: Shark_move_and_eat_def Let_def fp_def[symmetric] choice_nonempty q_def
           and_then_eq_Inr split: list.splits)
    then show ?thesis
      by (metis remove_agent_advances schedule_remove_advances move_agent_advances
          add_energy_advances advances_trans advances_rng_pos)
  qed
qed

lemma Fish_step_advances: "Fish_step a m = Inr m' \<Longrightarrow> advances m m'"
  unfolding Fish_step_def and_then_eq_Inr
  by (metis Fish_move_advances add_energy_advances Fish_reproduce_advances
      die_if_exhausted_advances advances_trans)

lemma Shark_step_advances: "Shark_step a m = Inr m' \<Longrightarrow> advances m m'"
  unfolding Shark_step_def and_then_eq_Inr
  by (metis Shark_move_and_eat_advances add_energy_advances Shark_reproduce_advances
      die_if_exhausted_advances advances_trans)

lemma agent_step_advances: "agent_step a m = Inr m' \<Longrightarrow> advances m m'"
  by (auto simp: agent_step_def split: agent_class.splits
      dest: Fish_step_advances Shark_step_advances)

lemma agent_buffer_advances:
  "agent_buffer ks m = Inr (log, m') \<Longrightarrow> advances m m'"
proof (induction ks arbitrary: m log)
  case Nil
  then show ?case by simp
next
  case (Cons k ks)
  show ?case
  proof (cases "k \<in> set (schedule m)")
    case True
    with Cons.prems obtain m1 log1 where
      "agent_step k m = Inr m1" "agent_buffer ks m1 = Inr (log1, m')"
      by (auto simp: and_then_eq_Inr)
    then show ?thesis
      using Cons.IH agent_step_advances advances_trans by blast
  next
    case False
    with Cons show ?thesis by simp
  qed
qed

lemma shuffle_from_state: "snd (shuffle_from i xs m) = m\<lparr>rng_pos := rng_pos m + i\<rparr>"
  by (induction i arbitrary: xs m) (simp_all add: randbelow_def split_def)

lemma WaTorModel_step_advances:
  assumes "WaTorModel_step m = Inr (log, m')"
  shows "advances m m'"
proof -
  obtain ks m1 where sh: "shuffle (schedule (collect m)) (collect m) = (ks, m1)"
    by (cases "shuffle (schedule (collect m)) (collect m)")
  then have "m1 = (collect m)\<lparr>rng_pos := rng_pos (collect m) + (length (schedule (collect m)) - 1)\<rparr>"
    using shuffle_from_state [of "length (schedule (collect m)) - 1" "schedule (collect m)" "collect m"]
    by (simp add: shuffle_def)
  then have "advances (collect m) m1" by simp
  moreover have "advances m1 m'"
    using assms sh agent_buffer_advances
    by (simp add: WaTorModel_step_def RandomActivation_step_def)
  ultimately show ?thesis
    using collect_advances advances_trans by blast
qed

lemma run_ticks_advances: "run_ticks n m = Inr (logs, m') \<Longrightarrow> advances m m'"
proof (induction n arbitrary: m logs)
  case 0
  then show ?case by simp
next
  case (Suc n)
  then obtain log m1 logs1 where
    "WaTorModel_step m = Inr (log, m1)" "run_ticks n m1 = Inr (logs1, m')"
    by (auto simp: and_then_eq_Inr)
  then show ?case
    using Suc.IH WaTorModel_step_advances advances_trans by blast
qed

lemma placed_onceI:
  "pos (agents m a) = Some p \<Longrightarrow> count (mset (grid m p)) a = 1 \<Longrightarrow>
   (\<And>q. q \<noteq> p \<Longrightarrow> a \<notin> set (grid m q)) \<Longrightarrow> placed_once a m"
  unfolding placed_once_def by blast

lemma placed_onceE:
  assumes "placed_once a m"
  obtains p where "pos (agents m a) = Some p" "count (mset (grid m p)) a = 1"
    "\<And>q. q \<noteq> p \<Longrightarrow> a \<notin> set (grid m q)"
  using assms unfolding placed_once_def by blast





lemma remove_agent_other:
  assumes "placed_once a m" and "remove_agent f m = Inr m'" and "f \<noteq> a"
  shows "placed_once a m'"
proof -
  from assms(1) obtain p where p: "pos (agents m a) = Some p" "count (mset (grid m p)) a = 1"
    and o: "\<And>q. q \<noteq> p \<Longrightarrow> a \<notin> set (grid m q)"
    unfolding placed_once_def by blast
  from assms(2) obtain r where g: "grid m' = (grid m)(r := remove1 f (grid m r))"
    and ag: "agents m' = (agents m)(f := (agents m f)\<lparr>pos := None\<rparr>)"
    by (auto simp: remove_agent_Inr)
  show ?thesis
  proof (rule placed_onceI [of _ _ p])
    show "pos (agents m' a) = Some p" using p(1) assms(3) by (simp add: ag)
    show "count (mset (grid m' p)) a = 1" using p(2) assms(3) by (auto simp: g)
    show "a \<notin> set (grid m' q)" if "q \<noteq> p" for q
      using o [OF that] assms(3) by (auto simp: g)
  qed
qed

lemma place_agent_other:
  assumes "placed_once a m" and "b \<noteq> a"
  shows "placed_once a (place_agent b r m)"
proof -
  from assms(1) obtain p where p: "pos (agents m a) = Some p" "count (mset (grid m p)) a = 1"
    and o: "\<And>q. q \<noteq> p \<Longrightarrow> a \<notin> set (grid m q)"
    unfolding placed_once_def by blast
  show ?thesis
  proof (rule placed_onceI [of _ _ p])
    show "pos (agents (place_agent b r m) a) = Some p"
      using p(1) assms(2) by (simp add: place_agent_def)
    show "count (mset (grid (place_agent b r m) p)) a = 1"
      using p(2) assms(2) by (auto simp: place_agent_def)
    show "a \<notin> set (grid (place_agent b r m) q)" if "q \<noteq> p" for q
      using o [OF that] assms(2) by (auto simp: place_agent_def)
  qed
qed


lemma move_agent_other:
  assumes "placed_once a m" and "move_agent b q m = Inr m'" and "b \<noteq> a"
  shows "placed_once a m'"
  using assms
  by (auto simp: move_agent_def and_then_eq_Inr intro: place_agent_other remove_agent_other)



lemma Fish_reproduce_cases:
  assumes "Fish_reproduce a m = Inr m'" and "a \<le> current_id m"
  obtains
    (wait) "fertility_counter (agents m a) + 1 < fish_fertility_threshold m"
      "m' = set_fertility a (fertility_counter (agents m a) + 1) m"
  | (birth) p where "fish_fertility_threshold m \<le> fertility_counter (agents m a) + 1"
      "pos (agents m a) = Some p" "Suc (current_id m) \<notin> set (schedule m)"
      "m' = m\<lparr>current_id := Suc (current_id m),
            schedule := schedule m @ [Suc (current_id m)],
            grid := (grid m)(p := grid m p @ [Suc (current_id m)]),
            agents := (agents m)
              (a := (agents m a)\<lparr>fertility_counter := 0\<rparr>,
               Suc (current_id m) :=
                 \<lparr>cls = Fish, energy = fish_initial_energy m, fertility_counter = 0, pos = Some p\<rparr>)\<rparr>"
proof (cases "fish_fertility_threshold m \<le> fertility_counter (agents m a) + 1")
  case False
  with assms have "m' = set_fertility a (fertility_counter (agents m a) + 1) m"
    by (auto simp: Fish_reproduce_def Let_def set_fertility_def)
  with False wait show ?thesis by simp
next
  case True
  with assms obtain p where "pos (agents m a) = Some p" "Suc (current_id m) \<notin> set (schedule m)"
    "m' = m\<lparr>current_id := Suc (current_id m),
            schedule := schedule m @ [Suc (current_id m)],
            grid := (grid m)(p := grid m p @ [Suc (current_id m)]),
            agents := (agents m)
              (a := (agents m a)\<lparr>fertility_counter := 0\<rparr>,
               Suc (current_id m) :=
                 \<lparr>cls = Fish, energy = fish_initial_energy m, fertility_counter = 0, pos = Some p\<rparr>)\<rparr>"
    by (auto simp: Fish_reproduce_def set_fertility_def next_id_def new_agent_def place_agent_def
        schedule_add_def Let_def fun_upd_twist split: option.splits if_splits)
  with True birth show ?thesis by blast
qed

lemma Shark_reproduce_cases:
  assumes "Shark_reproduce a m = Inr m'" and "a \<le> current_id m"
  obtains
    (wait) "fertility_counter (agents m a) + 1 < shark_fertility_threshold m"
      "m' = set_fertility a (fertility_counter (agents m a) + 1) m"
  | (birth) p where "shark_fertility_threshold m \<le> fertility_counter (agents m a) + 1"
      "pos (agents m a) = Some p" "Suc (current_id m) \<notin> set (schedule m)"
      "m' = m\<lparr>current_id := Suc (current_id m),
            schedule := schedule m @ [Suc (current_id m)],
            grid := (grid m)(p := grid m p @ [Suc (current_id m)]),
            agents := (agents m)
              (a := (agents m a)\<lparr>fertility_counter := 0\<rparr>,
               Suc (current_id m) :=
                 \<lparr>cls = Shark, energy = shark_initial_energy m, fertility_counter = 0, pos = Some p\<rparr>)\<rparr>"
proof (cases "shark_fertility_threshold m \<le> fertility_counter (agents m a) + 1")
  case False
  with assms have "m' = set_fertility a (fertility_counter (agents m a) + 1) m"
    by (auto simp: Shark_reproduce_def Let_def set_fertility_def)
  with False wait show ?thesis by simp
next
  case True
  with assms obtain p where "pos (agents m a) = Some p" "Suc (current_id m) \<notin> set (schedule m)"
    "m' = m\<lparr>current_id := Suc (current_id m),
            schedule := schedule m @ [Suc (current_id m)],
            grid := (grid m)(p := grid m p @ [Suc (current_id m)]),
            agents := (agents m)
              (a := (agents m a)\<lparr>fertility_counter := 0\<rparr>,
               Suc (current_id m) :=
                 \<lparr>cls = Shark, energy = shark_initial_energy m, fertility_counter = 0, pos = Some p\<rparr>)\<rparr>"
    by (auto simp: Shark_reproduce_def set_fertility_def next_id_def new_agent_def place_agent_def
        schedule_add_def Let_def fun_upd_twist split: option.splits if_splits)
  with True birth show ?thesis by blast
qed





lemma Shark_move_and_eat_cases:
  assumes "Shark_move_and_eat a m = Inr m'" and "pos (agents m a) = Some p"
    and "fp = filter (first_is_fish m) (get_neighborhood m p True)"
    and "es = filter (is_cell_empty m) (get_neighborhood m p True)"
  obtains
    (eat) f rest m2 m3 m4 where "fp \<noteq> []"
      "grid m (fp ! (rng m (rng_pos m) mod length fp)) = f # rest" "cls (agents m f) = Fish"
      "remove_agent f (m\<lparr>rng_pos := Suc (rng_pos m)\<rparr>) = Inr m2"
      "schedule_remove f m2 = Inr m3"
      "move_agent a (fp ! (rng m (rng_pos m) mod length fp)) m3 = Inr m4"
      "m' = add_energy a (shark_energy_from_fish m4) m4"
  | (move) "fp = []" "es \<noteq> []"
      "move_agent a (es ! (rng m (rng_pos m) mod length es)) (m\<lparr>rng_pos := Suc (rng_pos m)\<rparr>) = Inr m'"
  | (stay) "fp = []" "es = []" "m' = m"
proof (cases "fp = []")
  case True
  with assms move stay show ?thesis
    by (cases "es = []") (auto simp: Shark_move_and_eat_def Let_def choice_nonempty)
next
  case False
  define q where "q = fp ! (rng m (rng_pos m) mod length fp)"
  have "q \<in> set fp" using False by (simp add: q_def)
  then have fi: "first_is_fish m q" unfolding assms(3) set_filter by blast
  then obtain f rest where g: "grid m q = f # rest" and c: "cls (agents m f) = Fish"
    by (auto simp: first_is_fish_def get_cell_list_contents_def split: list.splits)
  from assms(1,2) False g obtain m2 m3 m4 where
      "remove_agent f (m\<lparr>rng_pos := Suc (rng_pos m)\<rparr>) = Inr m2"
      "schedule_remove f m2 = Inr m3" "move_agent a q m3 = Inr m4"
      "m' = add_energy a (shark_energy_from_fish m4) m4"
    by (auto simp: Shark_move_and_eat_def Let_def assms(3)[symmetric] choice_nonempty
           q_def[symmetric] get_cell_list_contents_def and_then_eq_Inr)
  with False g c eat show ?thesis unfolding q_def by blast
qed













subsection \<open>The fertility counter\<close>

lemma quiet_refl [simp]: "quiet m m"
  by (simp add: quiet_def)

lemma quiet_trans: "quiet m m1 \<Longrightarrow> quiet m1 m2 \<Longrightarrow> quiet m m2"
  unfolding quiet_def by auto

lemma quiet_rng_pos: "quiet (m\<lparr>rng_pos := k\<rparr>) m' \<Longrightarrow> quiet m m'"
  by (simp add: quiet_def params_def)

lemma remove_agent_quiet: "remove_agent a m = Inr m' \<Longrightarrow> quiet m m'"
  by (auto simp: quiet_def remove_agent_Inr params_def)

lemma schedule_remove_quiet: "schedule_remove a m = Inr m' \<Longrightarrow> quiet m m'"
  by (auto simp: quiet_def schedule_remove_def params_def split: if_splits)

lemma move_agent_quiet: "move_agent a q m = Inr m' \<Longrightarrow> quiet m m'"
  by (auto simp: quiet_def move_agent_def and_then_eq_Inr remove_agent_Inr place_agent_def
        params_def)

lemma add_energy_quiet [simp]: "quiet m (add_energy a d m)"
  by (simp add: quiet_def add_energy_def params_def)

lemma Fish_move_quiet: "Fish_move a m = Inr m' \<Longrightarrow> quiet m m'"
  by (auto simp: Fish_move_def Let_def choice_nonempty split: option.splits if_splits
       dest!: move_agent_quiet quiet_rng_pos)

lemma die_if_exhausted_quiet: "die_if_exhausted a m = Inr m' \<Longrightarrow> quiet m m'"
  by (auto simp: die_if_exhausted_def and_then_eq_Inr split: if_splits
      dest!: remove_agent_quiet schedule_remove_quiet intro: quiet_trans)

lemma Shark_move_and_eat_quiet:
  assumes "Shark_move_and_eat a m = Inr m'"
  shows "quiet m m'"
proof -
  from assms obtain p where p: "pos (agents m a) = Some p"
    by (auto simp: Shark_move_and_eat_def split: option.splits)
  from assms p refl refl show ?thesis
  proof (cases rule: Shark_move_and_eat_cases)
    case (eat f rest m2 m3 m4)
    then show ?thesis
      by (metis remove_agent_quiet schedule_remove_quiet move_agent_quiet add_energy_quiet
          quiet_trans quiet_rng_pos)
  next
    case move
    then show ?thesis using move_agent_quiet quiet_rng_pos by blast
  next
    case stay
    then show ?thesis by simp
  qed
qed

lemma reproduce_in_range:
  assumes thr: "1 \<le> fish_fertility_threshold m" "1 \<le> shark_fertility_threshold m"
    and ids: "\<forall>k\<in>set (schedule m). k \<le> current_id m" and a: "a \<in> set (schedule m)"
    and inv: "fertility_in_range m"
    and pre: "quiet m ma"
    and rep: "(cls (agents m a) = Fish \<and> Fish_reproduce a ma = Inr mb) \<or>
              (cls (agents m a) = Shark \<and> Shark_reproduce a ma = Inr mb)"
    and post: "quiet mb m'"
  shows "fertility_in_range m' \<and> (\<forall>k\<in>set (schedule m'). k \<le> current_id m') \<and>
     params m' = params m \<and>
     fertility_counter (agents m' a) =
       (if threshold_of m (cls (agents m a)) \<le> fertility_counter (agents m a) + 1 then 0
        else fertility_counter (agents m a) + 1) \<and>
     (\<forall>b. b \<noteq> a \<and> b \<le> current_id m \<longrightarrow>
        fertility_counter (agents m' b) = fertility_counter (agents m b))"
proof -
  have a_le: "a \<le> current_id ma" using ids a pre by (auto simp: quiet_def)
  have pm: "params ma = params m" "current_id ma = current_id m"
    and pa: "\<And>b. fertility_counter (agents ma b) = fertility_counter (agents m b)"
            "\<And>b. cls (agents ma b) = cls (agents m b)"
    and ps: "set (schedule ma) \<subseteq> set (schedule m)"
    using pre by (auto simp: quiet_def)
  have qm: "params m' = params mb" "current_id m' = current_id mb"
    and qa: "\<And>b. fertility_counter (agents m' b) = fertility_counter (agents mb b)"
            "\<And>b. cls (agents m' b) = cls (agents mb b)"
    and qs: "set (schedule m') \<subseteq> set (schedule mb)"
    using post by (auto simp: quiet_def)
  have thr_eq: "threshold_of ma c = threshold_of m c" for c
    using pm(1) by (simp add: threshold_of_def params_def split: agent_class.splits)
  have fresh: "Suc (current_id ma) \<notin> set (schedule ma)"
    using ps ids pm(2) by fastforce
  have core: "params mb = params ma \<and>
      set (schedule mb) \<subseteq> set (schedule ma) \<union> {Suc (current_id ma)} \<and>
      current_id ma \<le> current_id mb \<and>
      (Suc (current_id ma) \<in> set (schedule mb) \<longrightarrow>
         current_id mb = Suc (current_id ma) \<and>
         fertility_counter (agents mb (Suc (current_id ma))) = 0) \<and>
      (\<forall>b. b \<noteq> a \<and> b \<le> current_id ma \<longrightarrow>
          fertility_counter (agents mb b) = fertility_counter (agents ma b) \<and>
          cls (agents mb b) = cls (agents ma b)) \<and>
      cls (agents mb a) = cls (agents ma a) \<and>
      fertility_counter (agents mb a) =
       (if threshold_of ma (cls (agents ma a)) \<le> fertility_counter (agents ma a) + 1 then 0
        else fertility_counter (agents ma a) + 1)"
    using rep
  proof
    assume h: "cls (agents m a) = Fish \<and> Fish_reproduce a ma = Inr mb"
    then have c: "cls (agents ma a) = Fish" using pa(2) by simp
    from h have "Fish_reproduce a ma = Inr mb" by simp
    from this a_le show ?thesis
    proof (cases rule: Fish_reproduce_cases)
      case wait
      with c fresh show ?thesis
        by (auto simp: set_fertility_def threshold_of_def params_def)
    next
      case (birth p)
      with c a_le show ?thesis
        by (auto simp: threshold_of_def params_def)
    qed
  next
    assume h: "cls (agents m a) = Shark \<and> Shark_reproduce a ma = Inr mb"
    then have c: "cls (agents ma a) = Shark" using pa(2) by simp
    from h have "Shark_reproduce a ma = Inr mb" by simp
    from this a_le show ?thesis
    proof (cases rule: Shark_reproduce_cases)
      case wait
      with c fresh show ?thesis
        by (auto simp: set_fertility_def threshold_of_def params_def)
    next
      case (birth p)
      with c a_le show ?thesis
        by (auto simp: threshold_of_def params_def)
    qed
  qed
  have par: "params m' = params m" using core qm(1) pm(1) by simp
  have thr': "threshold_of m' c = threshold_of m c" for c
    using par by (simp add: threshold_of_def params_def split: agent_class.splits)
  have thr1: "1 \<le> threshold_of m c" for c
    using thr by (simp add: threshold_of_def split: agent_class.splits)
  have own: "fertility_counter (agents m' a) =
       (if threshold_of m (cls (agents m a)) \<le> fertility_counter (agents m a) + 1 then 0
        else fertility_counter (agents m a) + 1)"
    using core qa(1) pa thr_eq by simp
  have others: "fertility_counter (agents m' b) = fertility_counter (agents m b) \<and>
      cls (agents m' b) = cls (agents m b)" if "b \<noteq> a" "b \<le> current_id m" for b
    using core that qa pa pm(2) by simp
  have ids': "\<forall>k\<in>set (schedule m'). k \<le> current_id m'"
  proof
    fix k assume "k \<in> set (schedule m')"
    then have k: "k \<in> set (schedule mb)" using qs by auto
    show "k \<le> current_id m'"
    proof (cases "k = Suc (current_id ma)")
      case True
      with k core qm(2) show ?thesis by simp
    next
      case False
      with k core have "k \<in> set (schedule ma)" by auto
      then have "k \<le> current_id m" using ps ids by auto
      then show ?thesis using core qm(2) pm(2) by simp
    qed
  qed
  have "fertility_in_range m'"
    unfolding fertility_in_range_def
  proof
    fix j assume "j \<in> set (schedule m')"
    then have j: "j \<in> set (schedule mb)" using qs by auto
    show "0 \<le> fertility_counter (agents m' j) \<and>
        fertility_counter (agents m' j) \<le> threshold_of m' (cls (agents m' j)) - 1"
    proof (cases "j = Suc (current_id ma)")
      case True
      with j core have "fertility_counter (agents m' j) = 0" using qa(1) by simp
      then show ?thesis using thr1 [of "cls (agents m' j)"] thr' by simp
    next
      case False
      with j core have jm: "j \<in> set (schedule m)" using ps by auto
      then have jr: "0 \<le> fertility_counter (agents m j) \<and>
        fertility_counter (agents m j) \<le> threshold_of m (cls (agents m j)) - 1"
        using inv by (simp add: fertility_in_range_def)
      show ?thesis
      proof (cases "j = a")
        case True
        have "cls (agents m' a) = cls (agents m a)" using core qa(2) pa(2) by simp
        with True own jr thr' show ?thesis by auto
      next
        case False
        with jm ids others [of j] jr thr' show ?thesis by auto
      qed
    qed
  qed
  with ids' par own others show ?thesis by blast
qed

lemma agent_step_in_range:
  assumes "1 \<le> fish_fertility_threshold m" and "1 \<le> shark_fertility_threshold m"
    and "\<forall>k\<in>set (schedule m). k \<le> current_id m" and "a \<in> set (schedule m)"
    and "fertility_in_range m" and "agent_step a m = Inr m'"
  shows "fertility_in_range m' \<and> (\<forall>k\<in>set (schedule m'). k \<le> current_id m') \<and>
     params m' = params m \<and>
     fertility_counter (agents m' a) =
       (if threshold_of m (cls (agents m a)) \<le> fertility_counter (agents m a) + 1 then 0
        else fertility_counter (agents m a) + 1) \<and>
     (\<forall>b. b \<noteq> a \<and> b \<le> current_id m \<longrightarrow>
        fertility_counter (agents m' b) = fertility_counter (agents m b))"
proof (cases "cls (agents m a)")
  case Fish
  with assms(6) obtain m1 mb where
    s1: "Fish_move a m = Inr m1" and
    s2: "Fish_reproduce a (add_energy a (- 1) m1) = Inr mb" and
    s3: "die_if_exhausted a mb = Inr m'"
    by (auto simp: agent_step_def Fish_step_def and_then_eq_Inr)
  have "quiet m (add_energy a (- 1) m1)"
    using Fish_move_quiet [OF s1] add_energy_quiet quiet_trans by blast
  moreover have "quiet mb m'" using s3 by (rule die_if_exhausted_quiet)
  ultimately show ?thesis
    using reproduce_in_range [OF assms(1-5), of "add_energy a (- 1) m1" mb m'] Fish s2 by blast
next
  case Shark
  with assms(6) obtain m1 mb where
    s1: "Shark_move_and_eat a m = Inr m1" and
    s2: "Shark_reproduce a m1 = Inr mb" and
    s3: "die_if_exhausted a (add_energy a (- 1) mb) = Inr m'"
    by (auto simp: agent_step_def Shark_step_def and_then_eq_Inr)
  have "quiet m m1" using s1 by (rule Shark_move_and_eat_quiet)
  moreover have "quiet mb m'"
    using die_if_exhausted_quiet [OF s3] add_energy_quiet quiet_trans by blast
  ultimately show ?thesis
    using reproduce_in_range [OF assms(1-5), of m1 mb m'] Shark s2 by blast
qed

text \<open>
  Claim C9. Let both fertility thresholds be at least 1, let the roster hold only ids
  issued so far, and let every agent of the roster have its fertility counter in the
  range from 0 to its threshold minus 1. After a completed activation of an agent \<open>a\<close>
  of the roster the same holds again, for the agents that were in the roster and for
  the offspring. The counter of \<open>a\<close> has increased by exactly 1, or is 0 when the
  increment reaches the threshold; the counter of every other agent is unchanged, and
  the thresholds are unchanged.
\<close>

theorem fertility_counter_in_range:
  assumes "1 \<le> fish_fertility_threshold m" and "1 \<le> shark_fertility_threshold m"
    and "\<forall>k\<in>set (schedule m). k \<le> current_id m" and "a \<in> set (schedule m)"
    and "fertility_in_range m" and "agent_step a m = Inr m'"
  shows "fertility_in_range m' \<and> (\<forall>k\<in>set (schedule m'). k \<le> current_id m') \<and>
     params m' = params m \<and>
     fertility_counter (agents m' a) =
       (if threshold_of m (cls (agents m a)) \<le> fertility_counter (agents m a) + 1 then 0
        else fertility_counter (agents m a) + 1) \<and>
     (\<forall>b. b \<noteq> a \<and> b \<le> current_id m \<longrightarrow>
        fertility_counter (agents m' b) = fertility_counter (agents m b))"
  using assms by (rule agent_step_in_range)

lemma pond_fish_step: "\<exists>m'. agent_step 1 pond = Inr m'"
  by (simp add: pond_def pond_agents_def operation_defs)

theorem fertility_counter_in_range_witness:
  "\<exists>m'. agent_step 1 pond = Inr m' \<and> fish_fertility_threshold pond = 6 \<and>
      fertility_counter (agents pond 1) = 0 \<and> fertility_counter (agents m' 1) = 1 \<and>
      fertility_in_range m'"
proof -
  obtain m' where s: "agent_step 1 pond = Inr m'" using pond_fish_step by blast
  have h: "1 \<le> fish_fertility_threshold pond" "1 \<le> shark_fertility_threshold pond"
    "\<forall>k\<in>set (schedule pond). k \<le> current_id pond" "1 \<in> set (schedule pond)"
    "fertility_in_range pond"
    by (simp_all add: pond_def pond_agents_def fertility_in_range_def threshold_of_def)
  from fertility_counter_in_range [OF h s]
  have "fertility_in_range m'" "fertility_counter (agents m' 1) = 1"
    by (simp_all add: pond_def pond_agents_def threshold_of_def)
  with s show ?thesis by (simp add: pond_def pond_agents_def)
qed

lemma agent_buffer_in_range:
  assumes "1 \<le> fish_fertility_threshold m" and "1 \<le> shark_fertility_threshold m"
    and "\<forall>k\<in>set (schedule m). k \<le> current_id m" and "fertility_in_range m"
    and "agent_buffer ks m = Inr (log, m')"
  shows "fertility_in_range m' \<and> (\<forall>k\<in>set (schedule m'). k \<le> current_id m') \<and>
     params m' = params m"
  using assms
proof (induction ks arbitrary: m log)
  case Nil
  then show ?case by simp
next
  case (Cons k ks)
  show ?case
  proof (cases "k \<in> set (schedule m)")
    case True
    with Cons.prems(5) obtain m1 log1 where
      s: "agent_step k m = Inr m1" and b: "agent_buffer ks m1 = Inr (log1, m')"
      by (auto simp: and_then_eq_Inr)
    from agent_step_in_range [OF Cons.prems(1-3) True Cons.prems(4) s]
    have i: "fertility_in_range m1" "\<forall>k\<in>set (schedule m1). k \<le> current_id m1"
      and p: "params m1 = params m" by simp_all
    from p Cons.prems(1,2) have
      "1 \<le> fish_fertility_threshold m1" "1 \<le> shark_fertility_threshold m1"
      by (simp_all add: params_def)
    from Cons.IH [OF this i(2,1) b] p show ?thesis by simp
  next
    case False
    with Cons show ?thesis by simp
  qed
qed

lemma run_ticks_in_range:
  assumes "1 \<le> fish_fertility_threshold m" and "1 \<le> shark_fertility_threshold m"
    and "\<forall>k\<in>set (schedule m). k \<le> current_id m" and "fertility_in_range m"
    and "run_ticks n m = Inr (logs, m')"
  shows "fertility_in_range m' \<and> (\<forall>k\<in>set (schedule m'). k \<le> current_id m') \<and>
     params m' = params m"
  using assms
proof (induction n arbitrary: m logs)
  case 0
  then show ?case by simp
next
  case (Suc n)
  from Suc.prems(5) obtain log m1 logs1 where
    t: "WaTorModel_step m = Inr (log, m1)" and r: "run_ticks n m1 = Inr (logs1, m')"
    by (auto simp: and_then_eq_Inr)
  obtain ks m0 where sh: "shuffle (schedule (collect m)) (collect m) = (ks, m0)"
    by (cases "shuffle (schedule (collect m)) (collect m)")
  then have m0: "m0 = (collect m)\<lparr>rng_pos := rng_pos (collect m) + (length (schedule (collect m)) - 1)\<rparr>"
    using shuffle_from_state [of "length (schedule (collect m)) - 1" "schedule (collect m)" "collect m"]
    by (simp add: shuffle_def)
  have b: "agent_buffer ks m0 = Inr (log, m1)"
    using t sh by (simp add: WaTorModel_step_def RandomActivation_step_def)
  have "1 \<le> fish_fertility_threshold m0" "1 \<le> shark_fertility_threshold m0"
    "\<forall>k\<in>set (schedule m0). k \<le> current_id m0" "fertility_in_range m0"
    using Suc.prems(1-4)
    by (auto simp: m0 collect_def fertility_in_range_def threshold_of_def
          split: agent_class.splits)
  from agent_buffer_in_range [OF this b]
  have i: "fertility_in_range m1" "\<forall>k\<in>set (schedule m1). k \<le> current_id m1"
    and p: "params m1 = params m0" by simp_all
  have pm: "params m0 = params m" by (simp add: m0 collect_def params_def)
  with p Suc.prems(1,2) have
    "1 \<le> fish_fertility_threshold m1" "1 \<le> shark_fertility_threshold m1"
    by (simp_all add: params_def)
  from Suc.IH [OF this i(2,1) r] p pm show ?case by simp
qed

subsection \<open>Seeding\<close>

lemma int_mod_nat_bounds: "0 < w \<Longrightarrow> 0 \<le> int (k mod nat w) \<and> int (k mod nat w) < w"
  using mod_less_divisor [of "nat w" k] by linarith

lemma randrange_pos:
  "0 < n \<Longrightarrow> randrange n m = Inr (int (rng m (rng_pos m) mod nat n), m\<lparr>rng_pos := Suc (rng_pos m)\<rparr>)"
  by (simp add: randrange_def randbelow_def)

lemma randrange_nonpos: "n \<le> 0 \<Longrightarrow> randrange n m = Inl ValueError"
  by (simp add: randrange_def)

lemma find_empty_loop_partial:
  assumes r: "find_empty_loop m x y = Some res"
    and step: "\<And>loop m x y res.
      (\<And>m x y res. loop m x y = Some res \<Longrightarrow> P m x y res) \<Longrightarrow>
      (if \<not> is_cell_empty m (x, y)
       then (case randrange (width m) m of
              Inl e \<Rightarrow> Some (Inl e)
            | Inr (x', m1) \<Rightarrow>
                (case randrange (height m1) m1 of
                   Inl e \<Rightarrow> Some (Inl e)
                 | Inr (y', m2) \<Rightarrow> loop m2 x' y'))
       else Some (Inr ((x, y), m))) = Some res \<Longrightarrow> P m x y res"
  shows "P m x y res"
proof -
  have "(case ((m, x), y) of (a, b) \<Rightarrow> (case a of (c, d) \<Rightarrow> P c d) b) res"
  proof (rule find_empty_loop.raw_induct [where P = P])
    show "(case ((m, x), y) of (a, b) \<Rightarrow> (case a of (c, d) \<Rightarrow> find_empty_loop c d) b) = Some res"
      using r by simp
  qed (rule step)
  then show ?thesis by simp
qed

lemma find_empty_loop_result:
  assumes "find_empty_loop m x y = Some res"
  shows "case res of
           Inl e \<Rightarrow> width m \<le> 0 \<or> height m \<le> 0
         | Inr (p, m') \<Rightarrow>
             grid m p = [] \<and> (\<exists>j. m' = m\<lparr>rng_pos := rng_pos m + 2 * j\<rparr>) \<and>
             (p = (x, y) \<or> in_grid m p)"
  using assms
proof (rule find_empty_loop_partial)
  fix loop m x y res
  assume 1:
    "\<And>m x y res. loop m x y = Some res \<Longrightarrow>
      (case res of
           Inl e \<Rightarrow> width m \<le> 0 \<or> height m \<le> 0
         | Inr (p, m') \<Rightarrow>
             grid m p = [] \<and> (\<exists>j. m' = m\<lparr>rng_pos := rng_pos m + 2 * j\<rparr>) \<and>
             (p = (x, y) \<or> in_grid m p))"
    "(if \<not> is_cell_empty m (x, y)
       then (case randrange (width m) m of
              Inl e \<Rightarrow> Some (Inl e)
            | Inr (x', m1) \<Rightarrow>
                (case randrange (height m1) m1 of
                   Inl e \<Rightarrow> Some (Inl e)
                 | Inr (y', m2) \<Rightarrow> loop m2 x' y'))
       else Some (Inr ((x, y), m))) = Some res"
  show "case res of
           Inl e \<Rightarrow> width m \<le> 0 \<or> height m \<le> 0
         | Inr (p, m') \<Rightarrow>
             grid m p = [] \<and> (\<exists>j. m' = m\<lparr>rng_pos := rng_pos m + 2 * j\<rparr>) \<and>
             (p = (x, y) \<or> in_grid m p)"
  proof (cases "is_cell_empty m (x, y)")
    case True
    with 1(2) have "res = Inr ((x, y), m)" by simp
    with True show ?thesis by (auto simp: is_cell_empty_def intro!: exI [of _ 0])
  next
    case False
    show ?thesis
    proof (cases "0 < width m \<and> 0 < height m")
      case False
      with 1(2) \<open>\<not> is_cell_empty m (x, y)\<close> have "\<exists>e. res = Inl e"
        by (cases "0 < width m") (auto simp: randrange_pos randrange_nonpos)
      with False show ?thesis by auto
    next
      case True
      define x' where "x' = int (rng m (rng_pos m) mod nat (width m))"
      define y' where "y' = int (rng m (Suc (rng_pos m)) mod nat (height m))"
      define m2 where "m2 = m\<lparr>rng_pos := Suc (Suc (rng_pos m))\<rparr>"
      have l: "loop m2 x' y' = Some res"
        using 1(2) True \<open>\<not> is_cell_empty m (x, y)\<close>
        by (simp add: randrange_pos x'_def y'_def m2_def)
      have xy: "in_grid m (x', y')"
        using True by (simp add: in_grid_def x'_def y'_def int_mod_nat_bounds)
      from 1(1) [OF l] show ?thesis
      proof (cases res)
        case (Inl e)
        with 1(1) [OF l] True show ?thesis by (simp add: m2_def)
      next
        case (Inr pr)
        obtain p m' where pr: "pr = (p, m')" by (cases pr)
        with Inr 1(1) [OF l] obtain j where
          g: "grid m p = []" and m': "m' = m2\<lparr>rng_pos := rng_pos m2 + 2 * j\<rparr>"
          and p: "p = (x', y') \<or> in_grid m2 p"
          by (auto simp: m2_def)
        have "m' = m\<lparr>rng_pos := rng_pos m + 2 * Suc j\<rparr>" by (simp add: m' m2_def)
        then have "\<exists>j. m' = m\<lparr>rng_pos := rng_pos m + 2 * j\<rparr>" by blast
        moreover have "in_grid m p" using p xy by (auto simp: in_grid_def m2_def)
        ultimately show ?thesis using Inr pr g by simp
      qed
    qed
  qed
qed

lemma find_empty_cell_unfold:
  assumes "0 < width m" and "0 < height m"
  shows "find_empty_cell m =
     (if grid m (int (rng m (rng_pos m) mod nat (width m)),
                 int (rng m (Suc (rng_pos m)) mod nat (height m))) = []
      then Some (Inr ((int (rng m (rng_pos m) mod nat (width m)),
                       int (rng m (Suc (rng_pos m)) mod nat (height m))),
                      m\<lparr>rng_pos := rng_pos m + 2\<rparr>))
      else find_empty_cell (m\<lparr>rng_pos := rng_pos m + 2\<rparr>))"
proof -
  define x where "x = int (rng m (rng_pos m) mod nat (width m))"
  define y where "y = int (rng m (Suc (rng_pos m)) mod nat (height m))"
  define m2 where "m2 = m\<lparr>rng_pos := rng_pos m + 2\<rparr>"
  have 1: "find_empty_cell m = find_empty_loop m2 x y"
    using assms by (simp add: find_empty_cell_def randrange_pos x_def y_def m2_def)
  have 2: "find_empty_loop m2 x y =
     (if grid m (x, y) = [] then Some (Inr ((x, y), m2)) else find_empty_cell m2)"
    by (subst find_empty_loop.simps)
       (simp add: find_empty_cell_def is_cell_empty_def m2_def)
  show ?thesis using 1 2 by (simp add: x_def y_def m2_def)
qed

lemma find_empty_cell_result:
  assumes "0 < width m" and "0 < height m" and "find_empty_cell m = Some res"
  shows "\<exists>p j. res = Inr (p, m\<lparr>rng_pos := rng_pos m + 2 * j\<rparr>) \<and> grid m p = [] \<and> in_grid m p"
proof -
  define x where "x = int (rng m (rng_pos m) mod nat (width m))"
  define y where "y = int (rng m (Suc (rng_pos m)) mod nat (height m))"
  define m2 where "m2 = m\<lparr>rng_pos := rng_pos m + 2\<rparr>"
  have xy: "in_grid m (x, y)"
    using assms(1,2) by (simp add: in_grid_def x_def y_def int_mod_nat_bounds)
  have "find_empty_loop m2 x y = Some res"
    using assms by (simp add: find_empty_cell_def randrange_pos x_def y_def m2_def)
  from find_empty_loop_result [OF this] assms(1,2)
  obtain p m' j where r: "res = Inr (p, m')" and g: "grid m p = []"
    and m': "m' = m2\<lparr>rng_pos := rng_pos m2 + 2 * j\<rparr>" and p: "p = (x, y) \<or> in_grid m2 p"
    by (cases res) (auto simp: m2_def)
  have "m' = m\<lparr>rng_pos := rng_pos m + 2 * Suc j\<rparr>" by (simp add: m' m2_def)
  moreover have "in_grid m p" using p xy by (auto simp: in_grid_def m2_def)
  ultimately show ?thesis using r g by blast
qed

lemma find_empty_cell_full:
  assumes "0 < width m" and "0 < height m" and "\<forall>p. in_grid m p \<longrightarrow> grid m p \<noteq> []"
  shows "find_empty_cell m = None"
proof (cases "find_empty_cell m")
  case None
  then show ?thesis .
next
  case (Some res)
  from find_empty_cell_result [OF assms(1,2) this] assms(3) show ?thesis by blast
qed

lemma find_empty_cell_hits:
  assumes "0 < width m" and "0 < height m" and "rng_pos m = 2 * t"
    and "grid m (candidate (rng m) (width m) (height m) (t + d)) = []"
  shows "\<exists>res. find_empty_cell m = Some res"
  using assms
proof (induction d arbitrary: m t)
  case 0
  then show ?case
    by (subst find_empty_cell_unfold) (simp_all add: candidate_def)
next
  case (Suc d)
  define m2 where "m2 = m\<lparr>rng_pos := rng_pos m + 2\<rparr>"
  have "\<exists>res. find_empty_cell m2 = Some res"
  proof (rule Suc.IH [of m2 "Suc t"])
    show "0 < width m2" "0 < height m2" "rng_pos m2 = 2 * Suc t"
      using Suc.prems by (simp_all add: m2_def)
    show "grid m2 (candidate (rng m2) (width m2) (height m2) (Suc t + d)) = []"
      using Suc.prems(4) by (simp add: m2_def)
  qed
  then show ?case
    using Suc.prems(1,2) by (subst find_empty_cell_unfold) (auto simp: m2_def)
qed

lemma cells_eq: "{p. in_grid m p} = {0..<width m} \<times> {0..<height m}"
  by (auto simp: in_grid_def)

lemma finite_cells: "finite {p. in_grid m p}"
  by (simp add: cells_eq)

lemma card_cells: "card {p. in_grid m p} = nat (width m) * nat (height m)"
  by (simp add: cells_eq card_cartesian_product)

lemma seed_agents_step:
  assumes "find_empty_cell m = Some (Inr (p, m1))" and "Suc (current_id m1) \<notin> set (schedule m1)"
  shows "seed_agents c e (Suc n) m = seed_agents c e n (seed_one c e p m1)"
  using assms
  by (simp add: next_id_def new_agent_def place_agent_def schedule_add_def seed_one_def)

lemma finite_occupied:
  assumes "\<forall>p. grid m p \<noteq> [] \<longrightarrow> in_grid m p"
  shows "finite {p. grid m p \<noteq> []}"
  by (rule finite_subset [OF _ finite_cells [of m]]) (use assms in auto)

lemma seeded_step:
  assumes "seeded m" and "grid m p = []" and "in_grid m p"
  shows "seeded (seed_one c e p (m\<lparr>rng_pos := rng_pos m + 2 * j\<rparr>))"
proof -
  define a where "a = Suc (current_id m)"
  define m' where "m' = seed_one c e p (m\<lparr>rng_pos := rng_pos m + 2 * j\<rparr>)"
  from assms(1) have
    wh: "0 < width m" "0 < height m" and ev: "even (rng_pos m)" and di: "distinct (schedule m)"
    and ids: "\<forall>k\<in>set (schedule m). k \<le> current_id m"
    and ing: "\<forall>p. grid m p \<noteq> [] \<longrightarrow> in_grid m p"
    and card: "card {p. grid m p \<noteq> []} = length (schedule m)"
    and ag: "\<forall>i\<in>set (schedule m).
        fertility_counter (agents m i) = 0 \<and>
        (\<exists>p. pos (agents m i) = Some p \<and> in_grid m p \<and> grid m p = [i])"
    unfolding seeded_def by blast+
  have fresh: "a \<notin> set (schedule m)" using ids by (auto simp: a_def)
  have g': "grid m' = (grid m)(p := [a])" and s': "schedule m' = schedule m @ [a]"
    and c': "current_id m' = a" and w': "width m' = width m" "height m' = height m"
    and r': "rng_pos m' = rng_pos m + 2 * j"
    and a': "agents m' = (agents m)(a := \<lparr>cls = c, energy = e, fertility_counter = 0, pos = Some p\<rparr>)"
    using assms(2) by (simp_all add: m'_def seed_one_def a_def)
  have occ: "{q. grid m' q \<noteq> []} = insert p {q. grid m q \<noteq> []}"
    by (auto simp: g')
  have "card {q. grid m' q \<noteq> []} = Suc (card {q. grid m q \<noteq> []})"
    unfolding occ using finite_occupied [OF ing] assms(2) by simp
  then have card': "card {q. grid m' q \<noteq> []} = length (schedule m')"
    using card by (simp add: s')
  have ing': "\<forall>q. grid m' q \<noteq> [] \<longrightarrow> in_grid m' q"
    using ing assms(3) by (auto simp: g' in_grid_def w')
  have ag': "\<forall>i\<in>set (schedule m').
        fertility_counter (agents m' i) = 0 \<and>
        (\<exists>q. pos (agents m' i) = Some q \<and> in_grid m' q \<and> grid m' q = [i])"
  proof
    fix i assume "i \<in> set (schedule m')"
    then consider "i = a" | "i \<in> set (schedule m)" "i \<noteq> a"
      using fresh by (auto simp: s')
    then show "fertility_counter (agents m' i) = 0 \<and>
        (\<exists>q. pos (agents m' i) = Some q \<and> in_grid m' q \<and> grid m' q = [i])"
    proof cases
      case 1
      then show ?thesis using assms(3) by (simp add: a' g' in_grid_def w')
    next
      case 2
      with ag obtain q where q: "fertility_counter (agents m i) = 0"
        "pos (agents m i) = Some q" "in_grid m q" "grid m q = [i]" by blast
      with assms(2) have "q \<noteq> p" by auto
      with q 2 show ?thesis by (simp add: a' g' in_grid_def w')
    qed
  qed
  have "seeded m'"
    unfolding seeded_def
    using wh ev di fresh ids card' ing' ag'
    by (simp add: w' r' s' c') (auto simp: a_def)
  then show ?thesis by (simp add: m'_def)
qed

lemma free_cell:
  assumes "seeded m" and "length (schedule m) < nat (width m) * nat (height m)"
  shows "\<exists>p. in_grid m p \<and> grid m p = []"
proof (rule ccontr)
  assume "\<not> (\<exists>p. in_grid m p \<and> grid m p = [])"
  then have "{p. in_grid m p} \<subseteq> {p. grid m p \<noteq> []}" by auto
  moreover have "finite {p. grid m p \<noteq> []}"
    using assms(1) by (intro finite_occupied) (simp add: seeded_def)
  ultimately have "card {p. in_grid m p} \<le> card {p. grid m p \<noteq> []}"
    by (rule card_mono [rotated])
  with assms show False by (simp add: card_cells seeded_def)
qed

lemma full_grid:
  assumes "seeded m" and "nat (width m) * nat (height m) \<le> length (schedule m)"
  shows "\<forall>p. in_grid m p \<longrightarrow> grid m p \<noteq> []"
proof -
  have sub: "{p. grid m p \<noteq> []} \<subseteq> {p. in_grid m p}"
    using assms(1) by (auto simp: seeded_def)
  have "card {p. in_grid m p} \<le> card {p. grid m p \<noteq> []}"
    using assms by (simp add: card_cells seeded_def)
  with sub have "{p. grid m p \<noteq> []} = {p. in_grid m p}"
    using card_seteq [OF finite_cells [of m] sub] by simp
  then show ?thesis by blast
qed

lemma seed_agents_diverges:
  assumes "seeded m" and "nat (width m) * nat (height m) < length (schedule m) + n"
  shows "seed_agents c e n m = None"
  using assms
proof (induction n arbitrary: m)
  case 0
  have "{p. grid m p \<noteq> []} \<subseteq> {p. in_grid m p}"
    using 0(1) by (auto simp: seeded_def)
  then have "card {p. grid m p \<noteq> []} \<le> card {p. in_grid m p}"
    by (rule card_mono [OF finite_cells])
  with 0 show ?case by (simp add: card_cells seeded_def)
next
  case (Suc n)
  have wh: "0 < width m" "0 < height m" using Suc.prems(1) by (simp_all add: seeded_def)
  show ?case
  proof (cases "find_empty_cell m")
    case None
    then show ?thesis by simp
  next
    case (Some res)
    from find_empty_cell_result [OF wh Some] obtain p j where
      res: "res = Inr (p, m\<lparr>rng_pos := rng_pos m + 2 * j\<rparr>)" and p: "grid m p = []" "in_grid m p"
      by blast
    define m4 where "m4 = seed_one c e p (m\<lparr>rng_pos := rng_pos m + 2 * j\<rparr>)"
    have s4: "seeded m4" unfolding m4_def using Suc.prems(1) p by (rule seeded_step)
    have fresh: "Suc (current_id (m\<lparr>rng_pos := rng_pos m + 2 * j\<rparr>))
        \<notin> set (schedule (m\<lparr>rng_pos := rng_pos m + 2 * j\<rparr>))"
      using Suc.prems(1) by (auto simp: seeded_def)
    have "seed_agents c e (Suc n) m = seed_agents c e n m4"
      unfolding m4_def using Some res fresh by (intro seed_agents_step) simp_all
    moreover have "seed_agents c e n m4 = None"
    proof (rule Suc.IH [OF s4])
      show "nat (width m4) * nat (height m4) < length (schedule m4) + n"
        using Suc.prems(2) by (simp add: m4_def seed_one_def)
    qed
    ultimately show ?thesis by simp
  qed
qed

lemma seed_agents_terminates:
  assumes "seeded m" and "fair_source (rng m) (width m) (height m)"
    and "length (schedule m) + n \<le> nat (width m) * nat (height m)"
  shows "\<exists>m'. seed_agents c e n m = Some (Inr m') \<and> seeded m' \<and>
      length (schedule m') = length (schedule m) + n \<and>
      rng m' = rng m \<and> params m' = params m"
  using assms
proof (induction n arbitrary: m)
  case 0
  then show ?case by simp
next
  case (Suc n)
  have wh: "0 < width m" "0 < height m" using Suc.prems(1) by (simp_all add: seeded_def)
  from Suc.prems(1) obtain t where t: "rng_pos m = 2 * t" by (auto simp: seeded_def)
  from free_cell [OF Suc.prems(1)] Suc.prems(3) obtain x y where
    f: "in_grid m (x, y)" "grid m (x, y) = []" by auto
  with Suc.prems(2) obtain j where j: "t \<le> j" "candidate (rng m) (width m) (height m) j = (x, y)"
    unfolding fair_source_def in_grid_def by force
  then have "grid m (candidate (rng m) (width m) (height m) (t + (j - t))) = []"
    using f(2) by simp
  from find_empty_cell_hits [OF wh t this] obtain res where Some: "find_empty_cell m = Some res" ..
  from find_empty_cell_result [OF wh Some] obtain p k where
    res: "res = Inr (p, m\<lparr>rng_pos := rng_pos m + 2 * k\<rparr>)" and p: "grid m p = []" "in_grid m p"
    by blast
  define m4 where "m4 = seed_one c e p (m\<lparr>rng_pos := rng_pos m + 2 * k\<rparr>)"
  have s4: "seeded m4" unfolding m4_def using Suc.prems(1) p by (rule seeded_step)
  have fresh: "Suc (current_id (m\<lparr>rng_pos := rng_pos m + 2 * k\<rparr>))
      \<notin> set (schedule (m\<lparr>rng_pos := rng_pos m + 2 * k\<rparr>))"
    using Suc.prems(1) by (auto simp: seeded_def)
  have step: "seed_agents c e (Suc n) m = seed_agents c e n m4"
    unfolding m4_def using Some res fresh by (intro seed_agents_step) simp_all
  have m4: "rng m4 = rng m" "params m4 = params m" "length (schedule m4) = Suc (length (schedule m))"
    "width m4 = width m" "height m4 = height m"
    by (simp_all add: m4_def seed_one_def params_def)
  have "\<exists>m'. seed_agents c e n m4 = Some (Inr m') \<and> seeded m' \<and>
      length (schedule m') = length (schedule m4) + n \<and>
      rng m' = rng m4 \<and> params m' = params m4"
  proof (rule Suc.IH [OF s4])
    show "fair_source (rng m4) (width m4) (height m4)" using Suc.prems(2) by (simp add: m4)
    show "length (schedule m4) + n \<le> nat (width m4) * nat (height m4)"
      using Suc.prems(3) by (simp add: m4)
  qed
  then show ?case using step m4 by auto
qed

lemma seed_agents_result:
  assumes "seeded m" and "seed_agents c e n m = Some res"
  shows "\<exists>m'. res = Inr m' \<and> seeded m' \<and>
      length (schedule m') = length (schedule m) + n \<and> rng m' = rng m \<and> params m' = params m"
  using assms
proof (induction n arbitrary: m)
  case 0
  then show ?case by auto
next
  case (Suc n)
  have wh: "0 < width m" "0 < height m" using Suc.prems(1) by (simp_all add: seeded_def)
  from Suc.prems(2) obtain r1 where Some: "find_empty_cell m = Some r1"
    by (cases "find_empty_cell m") auto
  from find_empty_cell_result [OF wh Some] obtain p j where
    res: "r1 = Inr (p, m\<lparr>rng_pos := rng_pos m + 2 * j\<rparr>)" and p: "grid m p = []" "in_grid m p"
    by blast
  define m4 where "m4 = seed_one c e p (m\<lparr>rng_pos := rng_pos m + 2 * j\<rparr>)"
  have s4: "seeded m4" unfolding m4_def using Suc.prems(1) p by (rule seeded_step)
  have fresh: "Suc (current_id (m\<lparr>rng_pos := rng_pos m + 2 * j\<rparr>))
      \<notin> set (schedule (m\<lparr>rng_pos := rng_pos m + 2 * j\<rparr>))"
    using Suc.prems(1) by (auto simp: seeded_def)
  have "seed_agents c e (Suc n) m = seed_agents c e n m4"
    unfolding m4_def using Some res fresh by (intro seed_agents_step) simp_all
  with Suc.prems(2) have "seed_agents c e n m4 = Some res" by simp
  from Suc.IH [OF s4 this] show ?case
    by (auto simp: m4_def seed_one_def params_def)
qed

lemma seeded_new_model:
  "0 < w \<Longrightarrow> 0 < h \<Longrightarrow> seeded (new_model w h N_fish N_sharks fie sie fft sft sef r)"
  by (simp add: seeded_def new_model_def)

lemma WaTorModel_init_result:
  assumes "0 < w" and "0 < h" and "0 \<le> N_fish" and "0 \<le> N_sharks"
    and "WaTorModel_init w h N_fish N_sharks fie sie fft sft sef r = Some res"
  shows "\<exists>m. res = Inr m \<and> seeded m \<and> length (schedule m) = nat (N_fish + N_sharks) \<and>
     rng m = r \<and> params m = (w, h, fie, sie, fft, sft, sef)"
proof -
  define m0 where "m0 = new_model w h N_fish N_sharks fie sie fft sft sef r"
  have s0: "seeded m0" unfolding m0_def using assms(1,2) by (rule seeded_new_model)
  from assms(5) obtain r1 where 1: "seed_agents Fish fie (nat N_fish) m0 = Some r1"
    by (cases "seed_agents Fish fie (nat N_fish) m0")
       (auto simp: WaTorModel_init_def m0_def)
  from seed_agents_result [OF s0 1] obtain m1 where
    m1: "r1 = Inr m1" "seeded m1" "length (schedule m1) = length (schedule m0) + nat N_fish"
      "rng m1 = rng m0" "params m1 = params m0" by blast
  have 2: "seed_agents Shark sie (nat N_sharks) m1 = Some res"
    using assms(5) 1 m1(1) by (simp add: WaTorModel_init_def m0_def)
  from seed_agents_result [OF m1(2) 2] obtain m where
    "res = Inr m" "seeded m" "length (schedule m) = length (schedule m1) + nat N_sharks"
      "rng m = rng m1" "params m = params m1" by blast
  with m1 assms(3,4) show ?thesis
    by (auto simp: m0_def new_model_def params_def nat_add_distrib)
qed

lemma WaTorModel_init_terminates:
  assumes "0 < w" and "0 < h" and "0 \<le> N_fish" and "0 \<le> N_sharks"
    and "N_fish + N_sharks \<le> w * h" and "fair_source r w h"
  shows "\<exists>m. WaTorModel_init w h N_fish N_sharks fie sie fft sft sef r = Some (Inr m)"
proof -
  define m0 where "m0 = new_model w h N_fish N_sharks fie sie fft sft sef r"
  have s0: "seeded m0" unfolding m0_def using assms(1,2) by (rule seeded_new_model)
  have wh: "width m0 = w" "height m0 = h" "rng m0 = r" "schedule m0 = []"
    by (simp_all add: m0_def new_model_def)
  have cap: "nat N_fish + nat N_sharks \<le> nat w * nat h"
    using assms(1-5) by (metis nat_add_distrib nat_mono nat_mult_distrib less_imp_le)
  have "\<exists>m1. seed_agents Fish fie (nat N_fish) m0 = Some (Inr m1) \<and> seeded m1 \<and>
      length (schedule m1) = length (schedule m0) + nat N_fish \<and>
      rng m1 = rng m0 \<and> params m1 = params m0"
    using s0 assms(6) cap by (intro seed_agents_terminates) (simp_all add: wh)
  then obtain m1 where m1: "seed_agents Fish fie (nat N_fish) m0 = Some (Inr m1)" "seeded m1"
      "length (schedule m1) = nat N_fish" "rng m1 = r" "params m1 = params m0"
    by (auto simp: wh)
  then have wh1: "width m1 = w" "height m1 = h" using wh by (simp_all add: params_def)
  have "\<exists>m. seed_agents Shark sie (nat N_sharks) m1 = Some (Inr m) \<and> seeded m \<and>
      length (schedule m) = length (schedule m1) + nat N_sharks \<and>
      rng m = rng m1 \<and> params m = params m1"
    using m1(2) assms(6) cap by (intro seed_agents_terminates) (simp_all add: wh1 m1)
  then show ?thesis using m1(1) by (auto simp: WaTorModel_init_def m0_def)
qed

text \<open>
  Claim C8. Let width and height be positive and the two counts non-negative.
  \<^item> If the population is at most the number of cells and the random source is fair,
    seeding terminates.
  \<^item> Whenever seeding returns, it has raised no exception, the roster holds the
    configured number of agents, each once, and every agent of the roster is the only
    occupant of its cell, a cell of the grid: each agent was placed on a cell that was
    empty, and the agents occupy pairwise distinct cells.
  \<^item> If the population exceeds the number of cells, seeding does not terminate,
    whatever the random source delivers.
\<close>

theorem seeding_within_capacity:
  assumes "0 < w" and "0 < h" and "0 \<le> N_fish" and "0 \<le> N_sharks"
  shows
    "(N_fish + N_sharks \<le> w * h \<and> fair_source r w h \<longrightarrow>
        (\<exists>m. WaTorModel_init w h N_fish N_sharks fie sie fft sft sef r = Some (Inr m))) \<and>
     (\<forall>res. WaTorModel_init w h N_fish N_sharks fie sie fft sft sef r = Some res \<longrightarrow>
        (\<exists>m. res = Inr m \<and> length (schedule m) = nat (N_fish + N_sharks) \<and>
             distinct (schedule m) \<and>
             (\<forall>i\<in>set (schedule m).
                \<exists>p. pos (agents m i) = Some p \<and> in_grid m p \<and> grid m p = [i]))) \<and>
     (w * h < N_fish + N_sharks \<longrightarrow>
        WaTorModel_init w h N_fish N_sharks fie sie fft sft sef r = None)"
proof (intro conjI impI allI)
  assume "N_fish + N_sharks \<le> w * h \<and> fair_source r w h"
  then show "\<exists>m. WaTorModel_init w h N_fish N_sharks fie sie fft sft sef r = Some (Inr m)"
    using WaTorModel_init_terminates [OF assms] by blast
next
  fix res
  assume "WaTorModel_init w h N_fish N_sharks fie sie fft sft sef r = Some res"
  from WaTorModel_init_result [OF assms this]
  show "\<exists>m. res = Inr m \<and> length (schedule m) = nat (N_fish + N_sharks) \<and>
             distinct (schedule m) \<and>
             (\<forall>i\<in>set (schedule m).
                \<exists>p. pos (agents m i) = Some p \<and> in_grid m p \<and> grid m p = [i])"
    unfolding seeded_def by blast
next
  assume over: "w * h < N_fish + N_sharks"
  show "WaTorModel_init w h N_fish N_sharks fie sie fft sft sef r = None"
  proof (cases "WaTorModel_init w h N_fish N_sharks fie sie fft sft sef r")
    case None
    then show ?thesis .
  next
    case (Some res)
    from WaTorModel_init_result [OF assms this] obtain m where
      m: "seeded m" "length (schedule m) = nat (N_fish + N_sharks)"
        "params m = (w, h, fie, sie, fft, sft, sef)" by blast
    then have wh: "width m = w" "height m = h" by (simp_all add: params_def)
    have "{p. grid m p \<noteq> []} \<subseteq> {p. in_grid m p}" using m(1) by (auto simp: seeded_def)
    then have "card {p. grid m p \<noteq> []} \<le> card {p. in_grid m p}"
      by (rule card_mono [OF finite_cells])
    then have "nat (N_fish + N_sharks) \<le> nat w * nat h"
      using m(1,2) by (simp add: card_cells seeded_def wh)
    moreover have "nat w * nat h = nat (w * h)"
      using assms(1) by (simp add: nat_mult_distrib)
    moreover have "0 \<le> w * h" using assms(1,2) by simp
    ultimately have "N_fish + N_sharks \<le> w * h" by (simp add: nat_le_eq_zle)
    with over show ?thesis by simp
  qed
qed

lemma fair_two_by_one: "fair_source (\<lambda>i. i div 2) 2 1"
  unfolding fair_source_def candidate_def
proof (intro allI impI)
  fix t :: nat and x y :: int
  assume "0 \<le> x \<and> x < 2 \<and> 0 \<le> y \<and> y < 1"
  then have "x = 0 \<or> x = 1" "y = 0" by auto
  then have "t \<le> 2 * t + nat x \<and>
     (int (2 * (2 * t + nat x) div 2 mod nat 2), int ((2 * (2 * t + nat x) + 1) div 2 mod nat 1)) = (x, y)"
    by auto
  then show "\<exists>j\<ge>t. (int (2 * j div 2 mod nat 2), int ((2 * j + 1) div 2 mod nat 1)) = (x, y)"
    by blast
qed

theorem seeding_within_capacity_witness:
  "(\<exists>m. WaTorModel_init 2 1 1 1 20 4 6 10 8 (\<lambda>i. i div 2) = Some (Inr m) \<and>
         length (schedule m) = 2) \<and>
   WaTorModel_init 1 1 1 1 20 4 6 10 8 (\<lambda>i. i div 2) = None"
proof -
  have a: "(0::int) < 2" "(0::int) < 1" "(0::int) \<le> 1" by simp_all
  have "(1::int) + 1 \<le> 2 * 1 \<and> fair_source (\<lambda>i. i div 2) 2 1"
    using fair_two_by_one by simp
  with seeding_within_capacity [OF a(1,2,3,3), of "\<lambda>i. i div 2" 20 4 6 10 8]
  have "\<exists>m. WaTorModel_init 2 1 1 1 20 4 6 10 8 (\<lambda>i. i div 2) = Some (Inr m) \<and>
         length (schedule m) = 2"
    by fastforce
  moreover have "WaTorModel_init 1 1 1 1 20 4 6 10 8 (\<lambda>i. i div 2) = None"
    using seeding_within_capacity [OF a(2,2,3,3), of "\<lambda>i. i div 2" 20 4 6 10 8] by simp
  ultimately show ?thesis by blast
qed

subsection \<open>Runs and the random source\<close>






lemma follows_refl [simp]: "follows m m"
  by (simp add: follows_def)




lemma with_rng_fields [simp]:
  "grid (with_rng r m) = grid m" "agents (with_rng r m) = agents m"
  "schedule (with_rng r m) = schedule m" "current_id (with_rng r m) = current_id m"
  "rng_pos (with_rng r m) = rng_pos m" "rng (with_rng r m) = r"
  "width (with_rng r m) = width m" "height (with_rng r m) = height m"
  "datacollector (with_rng r m) = datacollector m"
  "fish_initial_energy (with_rng r m) = fish_initial_energy m"
  "shark_initial_energy (with_rng r m) = shark_initial_energy m"
  "fish_fertility_threshold (with_rng r m) = fish_fertility_threshold m"
  "shark_fertility_threshold (with_rng r m) = shark_fertility_threshold m"
  "shark_energy_from_fish (with_rng r m) = shark_energy_from_fish m"
  by (simp_all add: with_rng_def)









lemma neighbourhood_with_rng [simp]:
  "get_neighborhood (with_rng r m) = get_neighborhood m"
  "is_cell_empty (with_rng r m) = is_cell_empty m"
  "first_is_fish (with_rng r m) = first_is_fish m"
  "get_cell_list_contents (with_rng r m) = get_cell_list_contents m"
  by (auto simp: fun_eq_iff get_neighborhood_def is_cell_empty_def first_is_fish_def
        get_cell_list_contents_def split: list.splits)









lemma get_grid_with_rng [simp]: "get_grid (with_rng r m) = get_grid m"
  by (auto simp: get_grid_def classify_def split: list.splits)














end
